theory Spec2Isabelle
  imports Complex_Main "HOL-Library.Word" "HOL-Library.Log_Nat"
begin

section \<open>JavaScript strings\<close>

text \<open>
  A JavaScript string is a sequence of UTF-16 code units; \<open>length\<close>, \<open>charCodeAt\<close>,
  \<open>includes\<close>, \<open>startsWith\<close>, \<open>split\<close> and \<open>===\<close> all work on code units.
  String literals of the source are written \<open>lit ''...''\<close>.
\<close>

type_synonym code_unit = "16 word"
type_synonym jsstring = "code_unit list"

definition lit :: "string \<Rightarrow> jsstring" where
  "lit s = map of_char s"

text \<open>\<open>WhiteSpace\<close> and \<open>LineTerminator\<close> of ECMAScript: what \<open>trim\<close> strips and
  what the regular expression class \<open>\s\<close> matches.\<close>

definition isWhiteSpace :: "code_unit \<Rightarrow> bool" where
  "isWhiteSpace c \<longleftrightarrow>
     c = 0x09 \<or> c = 0x0A \<or> c = 0x0B \<or> c = 0x0C \<or> c = 0x0D \<or> c = 0x20 \<or>
     c = 0xA0 \<or> c = 0x1680 \<or> (0x2000 \<le> c \<and> c \<le> 0x200A) \<or>
     c = 0x2028 \<or> c = 0x2029 \<or> c = 0x202F \<or> c = 0x205F \<or> c = 0x3000 \<or> c = 0xFEFF"

definition trim :: "jsstring \<Rightarrow> jsstring" where
  "trim s = rev (dropWhile isWhiteSpace (rev (dropWhile isWhiteSpace s)))"

definition startsWith :: "jsstring \<Rightarrow> jsstring \<Rightarrow> bool" where
  "startsWith s p \<longleftrightarrow> take (length p) s = p"

text \<open>\<open>s.includes(p)\<close>: \<open>p\<close> occurs in \<open>s\<close> as a contiguous run of code units.\<close>

fun includes_str :: "jsstring \<Rightarrow> jsstring \<Rightarrow> bool" where
  "includes_str [] p = (p = [])"
| "includes_str (c # cs) p = (startsWith (c # cs) p \<or> includes_str cs p)"

text \<open>\<open>n.toString()\<close> for a non-negative integer below \<open>10^21\<close>: its decimal
  digits.\<close>

fun toString :: "nat \<Rightarrow> jsstring" where
  "toString n = (if n < 10 then [of_nat (48 + n)]
                 else toString (n div 10) @ [of_nat (48 + n mod 10)])"

declare toString.simps [simp del]

text \<open>\<open>s.replace(/\s+/g, '-')\<close>: every maximal run of white space becomes one hyphen.\<close>

function replaceWhiteSpaceRuns :: "jsstring \<Rightarrow> jsstring" where
  "replaceWhiteSpaceRuns [] = []"
| "replaceWhiteSpaceRuns (c # cs) =
     (if isWhiteSpace c then 0x2D # replaceWhiteSpaceRuns (dropWhile isWhiteSpace cs)
      else c # replaceWhiteSpaceRuns cs)"
  by pat_completeness auto
termination
  by (relation "measure length") (auto simp: length_dropWhile_le less_Suc_eq_le)

section \<open>Numbers: 32-bit integer operators on exact values\<close>

text \<open>
  The hash of \<open>generateMockResults\<close> is computed with \<open><<\<close> and \<open>|\<close>, which convert
  their operands with \<open>ToInt32\<close>; the subtraction and the addition between them are exact
  (every intermediate value is far below \<open>2^53\<close>).
\<close>

definition ToInt32 :: "int \<Rightarrow> int" where
  "ToInt32 x = (x + 2 ^ 31) mod 2 ^ 32 - 2 ^ 31"

definition shiftLeft :: "int \<Rightarrow> nat \<Rightarrow> int" where
  "shiftLeft x n = ToInt32 (ToInt32 x * 2 ^ n)"

definition bitOrZero :: "int \<Rightarrow> int" where
  "bitOrZero x = ToInt32 x"

section \<open>The result synthesizer\<close>

record SearchResult =
  sr_id :: jsstring
  sr_title :: jsstring
  sr_url :: jsstring
  snippet :: jsstring
  ads :: bool

text \<open>The loop \<open>for (i = 0; i < query.length; i++)\<close>, as a recursion over the code
  units still to be read.\<close>

fun hashLoop :: "int \<Rightarrow> jsstring \<Rightarrow> int" where
  "hashLoop hash [] = hash"
| "hashLoop hash (c # cs) = hashLoop (bitOrZero ((shiftLeft hash 5 - hash) + uint c)) cs"

definition seed :: "jsstring \<Rightarrow> int" where
  "seed query = \<bar>hashLoop 0 query\<bar>"

definition types :: "jsstring list" where
  "types = [lit ''Official'', lit ''Wiki'', lit ''News'', lit ''Blog'']"

definition resultSeed :: "jsstring \<Rightarrow> nat \<Rightarrow> int" where
  "resultSeed query i = seed query + int i"

definition mockResult :: "jsstring \<Rightarrow> nat \<Rightarrow> SearchResult" where
  "mockResult query i =
     \<lparr> sr_id = toString i,
       sr_title = query @ lit '' - Result '' @ toString (i + 1) @ lit '' ('' @
                  types ! nat (resultSeed query i mod int (length types)) @ lit '')'',
       sr_url = lit ''https://www.example.com/'' @ replaceWhiteSpaceRuns query @ lit ''/'' @
                toString i,
       snippet = lit ''This is a simulated search result for \"'' @ query @
                 lit ''\". Chimera Browser protects your privacy by stripping trackers from this result before you click.'',
       ads = (resultSeed query i mod 4 = 0) \<rparr>"

definition mockResults :: "jsstring \<Rightarrow> SearchResult list" where
  "mockResults query = map (mockResult query) [0..<8]"

section \<open>Percent-encoding (\<open>encodeURIComponent\<close>, \<open>decodeURIComponent\<close>)\<close>

datatype js_error = URIError | TypeError | SyntaxError

text \<open>The characters \<open>encodeURIComponent\<close> leaves alone: letters, digits and
  \<open>- _ . ! ~ * ' ( )\<close>.\<close>

definition uriUnescaped :: "code_unit \<Rightarrow> bool" where
  "uriUnescaped c \<longleftrightarrow>
     (0x41 \<le> c \<and> c \<le> 0x5A) \<or> (0x61 \<le> c \<and> c \<le> 0x7A) \<or> (0x30 \<le> c \<and> c \<le> 0x39) \<or>
     c = 0x2D \<or> c = 0x5F \<or> c = 0x2E \<or> c = 0x21 \<or> c = 0x7E \<or> c = 0x2A \<or>
     c = 0x27 \<or> c = 0x28 \<or> c = 0x29"

definition isLeadSurrogate :: "code_unit \<Rightarrow> bool" where
  "isLeadSurrogate c \<longleftrightarrow> 0xD800 \<le> c \<and> c \<le> 0xDBFF"

definition isTrailSurrogate :: "code_unit \<Rightarrow> bool" where
  "isTrailSurrogate c \<longleftrightarrow> 0xDC00 \<le> c \<and> c \<le> 0xDFFF"

definition surrogatePair :: "code_unit \<Rightarrow> code_unit \<Rightarrow> nat" where
  "surrogatePair lead trail = (unat lead - 0xD800) * 0x400 + (unat trail - 0xDC00) + 0x10000"

definition utf8Encode :: "nat \<Rightarrow> nat list" where
  "utf8Encode cp =
     (if cp < 0x80 then [cp]
      else if cp < 0x800 then [0xC0 + cp div 64, 0x80 + cp mod 64]
      else if cp < 0x10000 then [0xE0 + cp div 4096, 0x80 + cp div 64 mod 64, 0x80 + cp mod 64]
      else [0xF0 + cp div 262144, 0x80 + cp div 4096 mod 64, 0x80 + cp div 64 mod 64,
            0x80 + cp mod 64])"

definition hexDigit :: "nat \<Rightarrow> code_unit" where
  "hexDigit d = (if d < 10 then of_nat (48 + d) else of_nat (55 + d))"

definition percentEncode :: "nat \<Rightarrow> jsstring" where
  "percentEncode b = [0x25, hexDigit (b div 16), hexDigit (b mod 16)]"

definition escapeCodePoint :: "nat \<Rightarrow> jsstring" where
  "escapeCodePoint cp = concat (map percentEncode (utf8Encode cp))"

text \<open>\<open>None\<close> is the \<open>URIError\<close> thrown at an unpaired surrogate.\<close>

fun encodeURIComponent :: "jsstring \<Rightarrow> jsstring option" where
  "encodeURIComponent [] = Some []"
| "encodeURIComponent (c # cs) =
     (if uriUnescaped c then map_option ((#) c) (encodeURIComponent cs)
      else if isTrailSurrogate c then None
      else if isLeadSurrogate c then
        (case cs of
           [] \<Rightarrow> None
         | d # ds \<Rightarrow>
             if isTrailSurrogate d
             then map_option ((@) (escapeCodePoint (surrogatePair c d))) (encodeURIComponent ds)
             else None)
      else map_option ((@) (escapeCodePoint (unat c))) (encodeURIComponent cs))"

definition hexValue :: "code_unit \<Rightarrow> nat option" where
  "hexValue c =
     (if 0x30 \<le> c \<and> c \<le> 0x39 then Some (unat c - 0x30)
      else if 0x41 \<le> c \<and> c \<le> 0x46 then Some (unat c - 0x41 + 10)
      else if 0x61 \<le> c \<and> c \<le> 0x66 then Some (unat c - 0x61 + 10)
      else None)"

definition parseHexOctet :: "code_unit \<Rightarrow> code_unit \<Rightarrow> nat option" where
  "parseHexOctet h l =
     (case hexValue h of
        None \<Rightarrow> None
      | Some a \<Rightarrow> (case hexValue l of None \<Rightarrow> None | Some b \<Rightarrow> Some (16 * a + b)))"

text \<open>The number of leading 1 bits of an octet.\<close>

definition leadingOnes :: "nat \<Rightarrow> nat" where
  "leadingOnes b =
     (if b < 0x80 then 0 else if b < 0xC0 then 1 else if b < 0xE0 then 2
      else if b < 0xF0 then 3 else if b < 0xF8 then 4 else 5)"

text \<open>Reads \<open>n\<close> further escapes \<open>%XX\<close>; \<open>None\<close> when the text ends early, a
  \<open>%\<close> is missing or a digit is not hexadecimal.\<close>

fun readEscapes :: "nat \<Rightarrow> jsstring \<Rightarrow> (nat list \<times> jsstring) option" where
  "readEscapes n s =
     (if n = 0 then Some ([], s)
      else
        (case s of
           p # h # l # rest \<Rightarrow>
             if p = 0x25 then
               (case parseHexOctet h l of
                  None \<Rightarrow> None
                | Some b \<Rightarrow>
                    (case readEscapes (n - 1) rest of
                       None \<Rightarrow> None
                     | Some (bs, rest') \<Rightarrow> Some (b # bs, rest')))
             else None
         | _ \<Rightarrow> None))"

declare readEscapes.simps [simp del]

definition isContinuation :: "nat \<Rightarrow> bool" where
  "isContinuation b \<longleftrightarrow> 0x80 \<le> b \<and> b \<le> 0xBF"

text \<open>The code point of a well-formed UTF-8 sequence of two to four octets (no overlong
  form, no surrogate, nothing above \<open>U+10FFFF\<close>); \<open>None\<close> otherwise.\<close>

fun utf8Decode :: "nat list \<Rightarrow> nat option" where
  "utf8Decode [b0, b1] =
     (if 0xC2 \<le> b0 \<and> b0 \<le> 0xDF \<and> isContinuation b1
      then Some ((b0 - 0xC0) * 64 + (b1 - 0x80)) else None)"
| "utf8Decode [b0, b1, b2] =
     (if isContinuation b2 \<and>
         (b0 = 0xE0 \<and> 0xA0 \<le> b1 \<and> b1 \<le> 0xBF \<or>
          0xE1 \<le> b0 \<and> b0 \<le> 0xEC \<and> isContinuation b1 \<or>
          b0 = 0xED \<and> 0x80 \<le> b1 \<and> b1 \<le> 0x9F \<or>
          0xEE \<le> b0 \<and> b0 \<le> 0xEF \<and> isContinuation b1)
      then Some ((b0 - 0xE0) * 4096 + (b1 - 0x80) * 64 + (b2 - 0x80)) else None)"
| "utf8Decode [b0, b1, b2, b3] =
     (if isContinuation b2 \<and> isContinuation b3 \<and>
         (b0 = 0xF0 \<and> 0x90 \<le> b1 \<and> b1 \<le> 0xBF \<or>
          0xF1 \<le> b0 \<and> b0 \<le> 0xF3 \<and> isContinuation b1 \<or>
          b0 = 0xF4 \<and> 0x80 \<le> b1 \<and> b1 \<le> 0x8F)
      then Some ((b0 - 0xF0) * 262144 + (b1 - 0x80) * 4096 + (b2 - 0x80) * 64 + (b3 - 0x80))
      else None)"
| "utf8Decode bs = None"

definition utf16Encode :: "nat \<Rightarrow> jsstring" where
  "utf16Encode cp =
     (if cp < 0x10000 then [of_nat cp]
      else [of_nat (0xD800 + (cp - 0x10000) div 0x400), of_nat (0xDC00 + (cp - 0x10000) mod 0x400)])"

text \<open>\<open>None\<close> is the \<open>URIError\<close> thrown at a malformed escape.\<close>

function decodeURIComponent :: "jsstring \<Rightarrow> jsstring option" where
  "decodeURIComponent [] = Some []"
| "decodeURIComponent (c # cs) =
     (if c \<noteq> 0x25 then
        (case decodeURIComponent cs of None \<Rightarrow> None | Some r \<Rightarrow> Some (c # r))
      else
        (case cs of
           h # l # rest \<Rightarrow>
             (case parseHexOctet h l of
                None \<Rightarrow> None
              | Some b \<Rightarrow>
                  if leadingOnes b = 0 then
                    (case decodeURIComponent rest of
                       None \<Rightarrow> None
                     | Some r \<Rightarrow> Some (of_nat b # r))
                  else if leadingOnes b = 1 \<or> leadingOnes b > 4 then None
                  else
                    (case readEscapes (leadingOnes b - 1) rest of
                       None \<Rightarrow> None
                     | Some (bs, rest') \<Rightarrow>
                         (case utf8Decode (b # bs) of
                            None \<Rightarrow> None
                          | Some cp \<Rightarrow>
                              (case decodeURIComponent rest' of
                                 None \<Rightarrow> None
                               | Some r \<Rightarrow> Some (utf16Encode cp @ r)))))
         | _ \<Rightarrow> None))"
  by pat_completeness auto
termination
proof (relation "measure length")
  have shorter: "readEscapes n s = Some (bs, rest) \<Longrightarrow> length rest \<le> length s"
    for n s bs rest
  proof (induction n arbitrary: s bs rest)
    case 0
    then show ?case by (simp add: readEscapes.simps)
  next
    case (Suc n)
    from Suc.prems obtain p h l s' b bs' where s: "s = p # h # l # s'"
      and r: "readEscapes n s' = Some (bs', rest)"
      by (subst (asm) readEscapes.simps)
        (auto split: list.splits if_splits option.splits)
    from Suc.IH [OF r] s show ?case by simp
  qed
  fix c :: code_unit and cs h t l rest b x bs rest' cp
  assume "cs = h # t" "t = l # rest" "readEscapes (leadingOnes b - 1) rest = Some x"
    "(bs, rest') = x"
  then have "length rest' \<le> length rest"
    using shorter [of "leadingOnes b - 1" rest bs rest'] by simp
  with \<open>cs = h # t\<close> \<open>t = l # rest\<close> show "(rest', c # cs) \<in> measure length"
    by simp
qed auto

text \<open>\<open>s.split(sep)\<close> for a string separator: the pieces between the occurrences of
  \<open>sep\<close>, found from the left; an empty separator splits into single code units.\<close>

function splitLoop :: "jsstring \<Rightarrow> jsstring \<Rightarrow> jsstring \<Rightarrow> jsstring list" where
  "splitLoop sep piece s =
     (if sep \<noteq> [] \<and> startsWith s sep then piece # splitLoop sep [] (drop (length sep) s)
      else (case s of [] \<Rightarrow> [piece] | c # cs \<Rightarrow> splitLoop sep (piece @ [c]) cs))"
  by pat_completeness auto
termination
proof (relation "measure (\<lambda>(sep, piece, s). length s)")
  fix sep piece :: jsstring and s :: jsstring
  assume "sep \<noteq> [] \<and> startsWith s sep"
  then have "s \<noteq> []"
    by (auto simp: startsWith_def)
  with \<open>sep \<noteq> [] \<and> startsWith s sep\<close>
  show "((sep, [], drop (length sep) s), (sep, piece, s)) \<in> measure (\<lambda>(sep, piece, s). length s)"
    by simp
qed auto

declare splitLoop.simps [simp del]

definition split :: "jsstring \<Rightarrow> jsstring \<Rightarrow> jsstring list" where
  "split s sep = (if sep = [] then map (\<lambda>c. [c]) s else splitLoop sep [] s)"

section \<open>Session state\<close>

record Bookmark =
  bm_id :: jsstring
  bm_title :: jsstring
  bm_url :: jsstring
  createdAt :: nat

record HistoryItem =
  hi_id :: jsstring
  hi_title :: jsstring
  hi_url :: jsstring
  timestamp :: nat

datatype download_status = Downloading | Completed | Error

datatype download_type = Video | File

record DownloadItem =
  dl_id :: jsstring
  filename :: jsstring
  progress :: real
  status :: download_status
  dl_size :: jsstring
  dl_type :: download_type
  dl_date :: nat

record AdBlockStats =
  enabled :: bool
  totalBlocked :: nat
  sessionBlocked :: nat
  strictMode :: bool

datatype page = newtab | search | external

text \<open>The React state of \<open>BrowserView\<close> that the navigation engine reads and writes;
  \<open>console\<close> collects the lines written with \<open>console.error\<close>.\<close>

record browser_state =
  url :: jsstring
  history :: "jsstring list"
  historyIndex :: int
  inputValue :: jsstring
  isLoading :: bool
  internalPage :: page
  searchQuery :: jsstring
  bookmarks :: "Bookmark list"
  visitedHistory :: "HistoryItem list"
  downloads :: "DownloadItem list"
  searchResults :: "SearchResult list"
  adBlockStats :: AdBlockStats
  console :: "jsstring list"

text \<open>
  What a handler takes from the host: \<open>now k\<close> is the value of the \<open>k\<close>-th read of
  \<open>Date.now()\<close> during the call, and \<open>hostname u\<close> is \<open>new URL(u).hostname\<close>, with
  \<open>None\<close> when the \<open>URL\<close> constructor throws.
\<close>

record host =
  now :: "nat \<Rightarrow> nat"
  hostname :: "jsstring \<Rightarrow> jsstring option"

definition newtabUrl :: jsstring where
  "newtabUrl = lit ''chimera://newtab''"

definition initialState :: "nat \<Rightarrow> browser_state" where
  "initialState t =
     \<lparr> url = newtabUrl,
       history = [newtabUrl],
       historyIndex = 0,
       inputValue = [],
       isLoading = False,
       internalPage = newtab,
       searchQuery = [],
       bookmarks =
         [\<lparr> bm_id = lit ''1'', bm_title = lit ''Wikipedia'',
             bm_url = lit ''https://www.wikipedia.org'', createdAt = t \<rparr>,
          \<lparr> bm_id = lit ''2'', bm_title = lit ''Hacker News'',
             bm_url = lit ''https://news.ycombinator.com'', createdAt = t \<rparr>,
          \<lparr> bm_id = lit ''3'', bm_title = lit ''EFF'',
             bm_url = lit ''https://www.eff.org'', createdAt = t \<rparr>],
       visitedHistory =
         [\<lparr> hi_id = lit ''init'', hi_title = lit ''New Tab'', hi_url = newtabUrl,
             timestamp = t \<rparr>],
       downloads = [],
       searchResults = [],
       adBlockStats =
         \<lparr> enabled = True, totalBlocked = 1420, sessionBlocked = 0, strictMode = False \<rparr>,
       console = [] \<rparr>"

text \<open>\<open>xs.slice(0, end)\<close>: a negative \<open>end\<close> counts from the end of the array.\<close>

definition slice0 :: "'a list \<Rightarrow> int \<Rightarrow> 'a list" where
  "slice0 xs e =
     (let n = int (length xs);
          k = (if e < 0 then max (n + e) 0 else min e n)
      in take (nat k) xs)"

text \<open>\<open>xs[i]\<close>: \<open>None\<close> is \<open>undefined\<close>, read outside the array.\<close>

definition elementAt :: "'a list \<Rightarrow> int \<Rightarrow> 'a option" where
  "elementAt xs i = (if 0 \<le> i \<and> i < int (length xs) then Some (xs ! nat i) else None)"

definition generateMockResults :: "jsstring \<Rightarrow> browser_state \<Rightarrow> browser_state" where
  "generateMockResults query s = s\<lparr>searchResults := mockResults query\<rparr>"

definition addToHistory ::
  "host \<Rightarrow> jsstring \<Rightarrow> jsstring \<Rightarrow> HistoryItem list \<Rightarrow> HistoryItem list" where
  "addToHistory h targetUrl title prev =
     (if length prev > 0 \<and> hi_url (hd prev) = targetUrl then prev
      else take 1000
        (\<lparr> hi_id = toString (now h 0),
            hi_title = (if title = [] then targetUrl else title),
            hi_url = targetUrl,
            timestamp = now h 1 \<rparr> # prev))"

text \<open>The four statements that end both branches of \<open>navigate\<close>: cut the stack after the
  current entry, push, store the stack and the index of its last entry.\<close>

definition pushHistory :: "jsstring \<Rightarrow> browser_state \<Rightarrow> browser_state" where
  "pushHistory u s =
     (let newHistory = slice0 (history s) (historyIndex s + 1) @ [u]
      in s\<lparr>history := newHistory, historyIndex := int (length newHistory) - 1\<rparr>)"

text \<open>
  What a handler leaves behind: it returns, or it throws after the state updates it had
  already queued (React applies them all the same).
\<close>

datatype 'a outcome = Returned 'a | Threw js_error 'a

fun stateOf :: "'a outcome \<Rightarrow> 'a" where
  "stateOf (Returned s) = s"
| "stateOf (Threw e s) = s"

text \<open>The classification in the middle of \<open>navigate\<close>: the target, with the scheme put
  in front of a bare host, and \<open>isSearch\<close>.\<close>

definition classify :: "jsstring \<Rightarrow> jsstring \<times> bool" where
  "classify target =
     (if \<not> includes_str target (lit ''://'') \<and> \<not> startsWith target (lit ''chimera://'') then
        (if includes_str target (lit ''.'') \<and> \<not> includes_str target (lit '' '') then
           (if \<not> startsWith target (lit ''http'') then (lit ''https://'' @ target, False)
            else (target, False))
         else (target, True))
      else (target, False))"

definition navigate :: "host \<Rightarrow> jsstring \<Rightarrow> browser_state \<Rightarrow> browser_state outcome" where
  "navigate h input s =
     (let target = trim input in
      if target = lit ''chimera://newtab'' \<or> target = [] then
        Returned (pushHistory (lit ''chimera://newtab'')
          (s\<lparr>internalPage := newtab,
             url := lit ''chimera://newtab'',
             inputValue := [],
             visitedHistory :=
               addToHistory h (lit ''chimera://newtab'') (lit ''New Tab'') (visitedHistory s)\<rparr>))
      else
        (let (target, isSearch) = classify target;
             s1 = s\<lparr>isLoading := True,
                     adBlockStats := (adBlockStats s)\<lparr>sessionBlocked := 0\<rparr>\<rparr>
         in
           if isSearch then
             (let s2 = s1\<lparr>internalPage := search, searchQuery := target\<rparr> in
              case encodeURIComponent target of
                None \<Rightarrow> Threw URIError s2
              | Some q \<Rightarrow>
                  (let finalUrl = lit ''chimera://search?q='' @ q;
                       s3 = generateMockResults target s2;
                       s4 = s3\<lparr>visitedHistory :=
                              addToHistory h finalUrl (lit ''Search: '' @ target)
                                (visitedHistory s3)\<rparr>
                   in Returned (pushHistory finalUrl (s4\<lparr>url := finalUrl\<rparr>))))
           else
             (let s2 = s1\<lparr>internalPage := external\<rparr>;
                  host_name = (case hostname h target of None \<Rightarrow> target | Some n \<Rightarrow> n);
                  s3 = s2\<lparr>visitedHistory := addToHistory h target host_name (visitedHistory s2)\<rparr>
              in Returned (pushHistory target (s3\<lparr>url := target\<rparr>)))))"

text \<open>The timer \<open>navigate\<close> starts fires later, as a step of its own.\<close>

definition loadingTimeout :: "browser_state \<Rightarrow> browser_state" where
  "loadingTimeout s = s\<lparr>isLoading := False\<rparr>"

text \<open>
  \<open>handleBack\<close> and \<open>handleForward\<close>. A read outside the stack gives \<open>undefined\<close>, which
  \<open>setUrl\<close> stores and on which the effect below then fails (\<open>url.startsWith\<close> of
  \<open>undefined\<close>): that is the \<open>TypeError\<close> here.
\<close>

definition handleBack :: "browser_state \<Rightarrow> js_error + browser_state" where
  "handleBack s =
     (if historyIndex s > 0 then
        (case elementAt (history s) (historyIndex s - 1) of
           None \<Rightarrow> Inl TypeError
         | Some prevUrl \<Rightarrow> Inr (s\<lparr>historyIndex := historyIndex s - 1, url := prevUrl\<rparr>))
      else Inr s)"

definition handleForward :: "browser_state \<Rightarrow> js_error + browser_state" where
  "handleForward s =
     (if historyIndex s < int (length (history s)) - 1 then
        (case elementAt (history s) (historyIndex s + 1) of
           None \<Rightarrow> Inl TypeError
         | Some nextUrl \<Rightarrow> Inr (s\<lparr>historyIndex := historyIndex s + 1, url := nextUrl\<rparr>))
      else Inr s)"

text \<open>The button "Reset Browser".\<close>

definition resetBrowser :: "browser_state \<Rightarrow> browser_state" where
  "resetBrowser s =
     s\<lparr>history := [lit ''chimera://newtab''],
       historyIndex := 0,
       visitedHistory := [],
       downloads := [],
       url := lit ''chimera://newtab''\<rparr>"

text \<open>\<open>url.split('q=')[1] || ''\<close>.\<close>

definition queryPart :: "jsstring \<Rightarrow> jsstring" where
  "queryPart u = (case split u (lit ''q='') of a # b # rest \<Rightarrow> b | _ \<Rightarrow> [])"

text \<open>
  The effect that runs when \<open>url\<close> has changed: it derives the page and the query from
  the URL. An exception in an effect takes the component down (\<open>Inl\<close>).
\<close>

definition urlEffect :: "browser_state \<Rightarrow> js_error + browser_state" where
  "urlEffect s =
     (let s1 = s\<lparr>inputValue := url s\<rparr> in
      if url s = lit ''chimera://newtab'' then
        Inr (s1\<lparr>internalPage := newtab, inputValue := []\<rparr>)
      else if startsWith (url s) (lit ''chimera://search'') then
        (case decodeURIComponent (queryPart (url s)) of
           None \<Rightarrow> Inl URIError
         | Some q \<Rightarrow>
             (let s2 = s1\<lparr>internalPage := search, searchQuery := q, inputValue := q\<rparr>
              in Inr (if length (searchResults s) = 0 then generateMockResults q s2 else s2)))
      else Inr (s1\<lparr>internalPage := external\<rparr>))"

text \<open>A handler's state after the next render: the effect runs if \<open>url\<close> differs from
  the one of the render before.\<close>

definition afterRender :: "browser_state \<Rightarrow> browser_state \<Rightarrow> js_error + browser_state" where
  "afterRender before s = (if url s = url before then Inr s else urlEffect s)"

datatype operation = Navigate host jsstring | Back | Forward | Reset

fun perform :: "operation \<Rightarrow> browser_state \<Rightarrow> js_error + browser_state" where
  "perform (Navigate h input) s = afterRender s (stateOf (navigate h input s))"
| "perform Back s = (case handleBack s of Inl e \<Rightarrow> Inl e | Inr s' \<Rightarrow> afterRender s s')"
| "perform Forward s = (case handleForward s of Inl e \<Rightarrow> Inl e | Inr s' \<Rightarrow> afterRender s s')"
| "perform Reset s = afterRender s (resetBrowser s)"

text \<open>A sequence of operations, stopping where the component goes down. The states the
  component can be in are those a sequence reaches from the first render.\<close>

fun run :: "operation list \<Rightarrow> browser_state \<Rightarrow> js_error + browser_state" where
  "run [] s = Inr s"
| "run (op # ops) s = (case perform op s of Inl e \<Rightarrow> Inl e | Inr s' \<Rightarrow> run ops s')"

text \<open>A host for worked examples: the clock reads 1700000000000, and \<open>URL\<close> parses the
  addresses the examples visit (it drops the tab of the last one); no other text of the
  examples is a URL.\<close>

definition exampleHostname :: "jsstring \<Rightarrow> jsstring option" where
  "exampleHostname u =
     (if u = lit ''https://www.wikipedia.org'' then Some (lit ''www.wikipedia.org'')
      else if u = lit ''https://wikipedia.org'' then Some (lit ''wikipedia.org'')
      else if u = lit ''https://b.org'' then Some (lit ''b.org'')
      else if u = lit ''https://c.org'' then Some (lit ''c.org'')
      else if u = lit ''https://d.org'' then Some (lit ''d.org'')
      else if u = lit ''https://a.b'' @ [0x09] @ lit ''c'' then Some (lit ''a.bc'')
      else None)"

definition exampleHost :: host where
  "exampleHost = \<lparr> now = (\<lambda>k. 1700000000000), hostname = exampleHostname \<rparr>"

section \<open>The download simulator\<close>

text \<open>
  JavaScript numbers are IEEE 754 doubles: \<open>+\<close> and \<open>*\<close> return the exact result rounded to
  a double. The rounding \<open>fl\<close> is a parameter of the simulator below; \<open>roundDouble\<close> is
  round-to-nearest, ties-to-even, on a significand of 53 bits: \<open>exponent x\<close> is the \<open>e\<close>
  with \<open>2^e \<le> |x| < 2^(e+1)\<close>, found from the number of bits of the integer part of \<open>|x|\<close>
  or of its inverse, and \<open>ulp x\<close> is the distance between the doubles around \<open>x\<close>. (The
  exponent is left unbounded: progress stays between 0 and 108, far from overflow, and
  below the normal range the sum of two doubles is a double.)
\<close>

definition roundHalfEven :: "real \<Rightarrow> int" where
  "roundHalfEven q =
     (let n = \<lfloor>q\<rfloor> in
      if q - of_int n < 1 / 2 then n
      else if 1 / 2 < q - of_int n then n + 1
      else if even n then n else n + 1)"

definition exponent :: "real \<Rightarrow> int" where
  "exponent x =
     (if 1 \<le> \<bar>x\<bar> then bitlen \<lfloor>\<bar>x\<bar>\<rfloor> - 1 else - bitlen (\<lceil>1 / \<bar>x\<bar>\<rceil> - 1))"

definition ulp :: "real \<Rightarrow> real" where
  "ulp x = 2 powi (exponent x - 52)"

definition roundDouble :: "real \<Rightarrow> real" where
  "roundDouble x = (if x = 0 then 0 else of_int (roundHalfEven (x / ulp x)) * ulp x)"

text \<open>The callback of \<open>prev.map\<close> in the download timer; \<open>r\<close> is the value of
  \<open>Math.random()\<close>, drawn only for an entry that is downloading. The product and the sum
  of \<open>dl.progress + Math.random() * 8\<close> are each rounded by \<open>fl\<close>.\<close>

definition tickDownload :: "(real \<Rightarrow> real) \<Rightarrow> real \<Rightarrow> DownloadItem \<Rightarrow> DownloadItem" where
  "tickDownload fl r dl =
     (if status dl = Downloading then
        (let newProgress = fl (progress dl + fl (r * 8)) in
         if newProgress \<ge> 100 then dl\<lparr>progress := 100, status := Completed\<rparr>
         else dl\<lparr>progress := newProgress\<rparr>)
      else dl)"

text \<open>One tick over the list: the \<open>k\<close>-th draw of \<open>Math.random()\<close> goes to the
  \<open>k\<close>-th entry that is downloading.\<close>

fun tickDownloads ::
  "(real \<Rightarrow> real) \<Rightarrow> (nat \<Rightarrow> real) \<Rightarrow> nat \<Rightarrow> DownloadItem list \<Rightarrow> DownloadItem list" where
  "tickDownloads fl rnd k [] = []"
| "tickDownloads fl rnd k (dl # dls) =
     (if status dl = Downloading
      then tickDownload fl (rnd k) dl # tickDownloads fl rnd (k + 1) dls
      else dl # tickDownloads fl rnd k dls)"

definition downloadTick :: "(real \<Rightarrow> real) \<Rightarrow> (nat \<Rightarrow> real) \<Rightarrow> browser_state \<Rightarrow> browser_state" where
  "downloadTick fl rnd s = s\<lparr>downloads := tickDownloads fl rnd 0 (downloads s)\<rparr>"

section \<open>Bookmarks\<close>

text \<open>The star button: the bookmarks of the current URL are removed, or, when there is
  none, one is appended; its title follows the page, its id is the clock's reading.\<close>

definition toggleBookmark :: "host \<Rightarrow> browser_state \<Rightarrow> browser_state" where
  "toggleBookmark h s =
     (case find (\<lambda>b. bm_url b = url s) (bookmarks s) of
        Some exists \<Rightarrow> s\<lparr>bookmarks := filter (\<lambda>b. bm_url b \<noteq> url s) (bookmarks s)\<rparr>
      | None \<Rightarrow>
          (let title =
             (if internalPage s = search then lit ''Search: '' @ searchQuery s
              else if internalPage s = newtab then lit ''New Tab''
              else (case hostname h (url s) of None \<Rightarrow> url s | Some n \<Rightarrow> n))
           in s\<lparr>bookmarks := bookmarks s @
                 [\<lparr> bm_id = toString (now h 0), bm_title = title, bm_url = url s,
                     createdAt = now h 1 \<rparr>]\<rparr>))"

text \<open>A parsed JSON document. \<open>JSON.parse\<close> belongs to the host: \<open>importBookmarks\<close>
  takes it as \<open>JSON_parse\<close> (\<open>Inl\<close> when it throws), and \<open>asBookmark\<close> is the
  unchecked reading of an array element as a \<open>Bookmark\<close>. \<open>file\<close> is
  \<open>event.target.files[0]\<close> after \<open>readAsText\<close>, \<open>None\<close> when no file was chosen.\<close>

datatype json =
  JNull | JBool bool | JNumber real | JString jsstring | JArray "json list"
  | JObject "(jsstring \<times> json) list"

definition isArray :: "json \<Rightarrow> bool" where
  "isArray v = (case v of JArray items \<Rightarrow> True | _ \<Rightarrow> False)"

definition importBookmarks ::
  "(jsstring \<Rightarrow> js_error + json) \<Rightarrow> (json \<Rightarrow> Bookmark) \<Rightarrow> jsstring option \<Rightarrow>
   browser_state \<Rightarrow> browser_state" where
  "importBookmarks JSON_parse asBookmark file s =
     (case file of
        None \<Rightarrow> s
      | Some text \<Rightarrow>
          (case JSON_parse text of
             Inl err \<Rightarrow> s\<lparr>console := console s @ [lit ''Invalid bookmark file'']\<rparr>
           | Inr parsed \<Rightarrow>
               (case parsed of
                  JArray items \<Rightarrow> s\<lparr>bookmarks := bookmarks s @ map asBookmark items\<rparr>
                | _ \<Rightarrow> s)))"

section \<open>Persistent state\<close>




subsection \<open>The values of the state and their JSON text\<close>

text \<open>
  What the hook keeps is a JavaScript value. A number is an integer (\<open>Integer n\<close> stands for
  the double \<open>n\<close>, which exists for every \<open>n\<close> of magnitude up to \<open>2^53\<close> and is written in
  decimal digits below \<open>10^21\<close>) or one of the three values that are not finite; a number with
  a fraction is left out, since its text is the shortest decimal that reads back as the same
  double. An object is the list of its own properties in the order in which it enumerates
  them.
\<close>

datatype jsnumber = Integer int | NotANumber | PlusInfinity | MinusInfinity


text \<open>\<open>QuoteJSONString\<close>: the seven short escapes; \<open>\uXXXX\<close> with lower-case digits for
  the other code units below U+0020 and for a surrogate without its partner; every other code
  unit, and every surrogate pair, as it is.\<close>

definition lowerHexDigit :: "nat \<Rightarrow> code_unit" where
  "lowerHexDigit d = (if d < 10 then of_nat (48 + d) else of_nat (87 + d))"

definition unicodeEscape :: "code_unit \<Rightarrow> jsstring" where
  "unicodeEscape c =
     [0x5C, 0x75, lowerHexDigit (unat c div 4096), lowerHexDigit (unat c div 256 mod 16),
      lowerHexDigit (unat c div 16 mod 16), lowerHexDigit (unat c mod 16)]"

definition quoteUnit :: "code_unit \<Rightarrow> jsstring" where
  "quoteUnit c =
     (if c = 0x08 then [0x5C, 0x62]
      else if c = 0x09 then [0x5C, 0x74]
      else if c = 0x0A then [0x5C, 0x6E]
      else if c = 0x0C then [0x5C, 0x66]
      else if c = 0x0D then [0x5C, 0x72]
      else if c = 0x22 then [0x5C, 0x22]
      else if c = 0x5C then [0x5C, 0x5C]
      else if c < 0x20 \<or> isLeadSurrogate c \<or> isTrailSurrogate c then unicodeEscape c
      else [c])"

fun quoteLoop :: "jsstring \<Rightarrow> jsstring" where
  "quoteLoop [] = []"
| "quoteLoop [c] = quoteUnit c"
| "quoteLoop (c # d # cs) =
     (if isLeadSurrogate c \<and> isTrailSurrogate d then c # d # quoteLoop cs
      else quoteUnit c @ quoteLoop (d # cs))"

definition quoteJSONString :: "jsstring \<Rightarrow> jsstring" where
  "quoteJSONString s = [0x22] @ quoteLoop s @ [0x22]"







subsection \<open>A reference reader of JSON text\<close>


definition simpleEscape :: "code_unit \<Rightarrow> code_unit option" where
  "simpleEscape e =
     (if e = 0x22 then Some 0x22
      else if e = 0x5C then Some 0x5C
      else if e = 0x2F then Some 0x2F
      else if e = 0x62 then Some 0x08
      else if e = 0x66 then Some 0x0C
      else if e = 0x6E then Some 0x0A
      else if e = 0x72 then Some 0x0D
      else if e = 0x74 then Some 0x09
      else None)"

definition readHex4 :: "code_unit \<Rightarrow> code_unit \<Rightarrow> code_unit \<Rightarrow> code_unit \<Rightarrow> code_unit option" where
  "readHex4 a b c d =
     (case hexValue a of None \<Rightarrow> None | Some x \<Rightarrow>
      case hexValue b of None \<Rightarrow> None | Some y \<Rightarrow>
      case hexValue c of None \<Rightarrow> None | Some z \<Rightarrow>
      case hexValue d of None \<Rightarrow> None | Some w \<Rightarrow>
        Some (of_nat (((x * 16 + y) * 16 + z) * 16 + w)))"

definition consUnit :: "code_unit \<Rightarrow> (jsstring \<times> jsstring) option \<Rightarrow> (jsstring \<times> jsstring) option" where
  "consUnit u res = (case res of None \<Rightarrow> None | Some (s, rest) \<Rightarrow> Some (u # s, rest))"

fun readString :: "jsstring \<Rightarrow> (jsstring \<times> jsstring) option" where
  "readString [] = None"
| "readString (c # cs) =
     (if c = 0x22 then Some ([], cs)
      else if c = 0x5C then
        (case cs of
           [] \<Rightarrow> None
         | e # r \<Rightarrow>
             if e = 0x75 then
               (case r of
                  h1 # h2 # h3 # h4 # r' \<Rightarrow>
                    (case readHex4 h1 h2 h3 h4 of
                       None \<Rightarrow> None
                     | Some u \<Rightarrow> consUnit u (readString r'))
                | _ \<Rightarrow> None)
             else (case simpleEscape e of None \<Rightarrow> None | Some u \<Rightarrow> consUnit u (readString r)))
      else if c < 0x20 then None
      else consUnit c (readString cs))"





section \<open>Worked examples\<close>

text \<open>Two searches and a step back; a visit and a step back; a stack of three entries with
  the last one current.\<close>

definition staleResultsRun :: "js_error + browser_state" where
  "staleResultsRun =
     run [Navigate exampleHost (lit ''foo''), Navigate exampleHost (lit ''bar''), Back] (initialState 0)"

definition visitAndBackRun :: "js_error + browser_state" where
  "visitAndBackRun = run [Navigate exampleHost (lit ''wikipedia.org''), Back] (initialState 0)"

definition forwardBranchState :: browser_state where
  "forwardBranchState =
     (initialState 0)\<lparr>history := [lit ''chimera://newtab'', lit ''https://b.org'', lit ''https://c.org''],
       historyIndex := 2, url := lit ''https://c.org'', internalPage := external\<rparr>"

text \<open>Three inputs of \<open>navigate\<close>: a host with a tab in it, a host whose name begins with
  \<open>http\<close>, and a lead surrogate on its own.\<close>

definition tabbedInput :: jsstring where
  "tabbedInput = lit ''a.b'' @ [0x09] @ lit ''c''"

definition httpHostInput :: jsstring where
  "httpHostInput = lit ''httpbin.org''"

definition loneSurrogateInput :: jsstring where
  "loneSurrogateInput = [0xD83D]"

text \<open>A random source whose third draw is \<open>3 * 2^-51\<close> and every other draw one half,
  four downloads, the last one a double step below 100, and a session that holds them.\<close>

definition sampleDraws :: "nat \<Rightarrow> real" where
  "sampleDraws k = (if k = 2 then 3 / 2 ^ 51 else 1 / 2)"

definition sampleDownloads :: "DownloadItem list" where
  "sampleDownloads =
     [\<lparr> dl_id = lit ''1'', filename = lit ''video_1.mp4'', progress = 98, status = Downloading,
         dl_size = lit ''145.2 MB'', dl_type = Video, dl_date = 0 \<rparr>,
      \<lparr> dl_id = lit ''2'', filename = lit ''a.bin'', progress = 100, status = Completed,
         dl_size = lit ''12.5 MB'', dl_type = File, dl_date = 0 \<rparr>,
      \<lparr> dl_id = lit ''3'', filename = lit ''b.bin'', progress = 10, status = Downloading,
         dl_size = lit ''12.5 MB'', dl_type = File, dl_date = 0 \<rparr>,
      \<lparr> dl_id = lit ''4'', filename = lit ''c.bin'', progress = 100 - 1 / 2 ^ 46,
         status = Downloading, dl_size = lit ''12.5 MB'', dl_type = File, dl_date = 0 \<rparr>]"

definition downloadingState :: browser_state where
  "downloadingState = (initialState 0)\<lparr>downloads := sampleDownloads\<rparr>"

text \<open>The session on a page that is bookmarked from the first render on.\<close>

definition wikipediaState :: browser_state where
  "wikipediaState =
     (initialState 0)\<lparr>url := lit ''https://www.wikipedia.org'', internalPage := external\<rparr>"

text \<open>An instance of \<open>asBookmark\<close> for the interchange format: the four members by
  name, with an empty string or 0 where one is missing.\<close>

fun field :: "jsstring \<Rightarrow> json \<Rightarrow> json" where
  "field name (JObject members) = (case map_of members name of None \<Rightarrow> JNull | Some v \<Rightarrow> v)"
| "field name v = JNull"

fun textOf :: "json \<Rightarrow> jsstring" where
  "textOf (JString t) = t"
| "textOf v = []"

fun natOf :: "json \<Rightarrow> nat" where
  "natOf (JNumber x) = nat \<lfloor>x\<rfloor>"
| "natOf v = 0"

definition bookmarkOfJson :: "json \<Rightarrow> Bookmark" where
  "bookmarkOfJson v =
     \<lparr> bm_id = textOf (field (lit ''id'') v), bm_title = textOf (field (lit ''title'') v),
       bm_url = textOf (field (lit ''url'') v), createdAt = natOf (field (lit ''createdAt'') v) \<rparr>"

text \<open>An instance of \<open>JSON_parse\<close> that knows one document, the empty object.\<close>

definition emptyObjectParse :: "jsstring \<Rightarrow> js_error + json" where
  "emptyObjectParse text = (if text = lit ''{}'' then Inr (JObject []) else Inl SyntaxError)"






section \<open>The claims' words, for comparison\<close>

text \<open>The rolling polynomial of the query's code units, before any wrap-around: the first
  code unit carries the highest power of 31.\<close>

definition polynomialHash :: "jsstring \<Rightarrow> int" where
  "polynomialHash q = (\<Sum>k<length q. uint (q ! k) * 31 ^ (length q - 1 - k))"


text \<open>The history invariant of the data model.\<close>

definition historyInvariant :: "browser_state \<Rightarrow> bool" where
  "historyInvariant s \<longleftrightarrow> 0 \<le> historyIndex s \<and> historyIndex s < int (length (history s))"

section \<open>Evaluation rules\<close>

lemma length_mockResults [simp]: "length (mockResults q) = 8"
  by (simp add: mockResults_def)

lemmas str_eval = lit_def trim_def isWhiteSpace_def startsWith_def

lemmas uri_eval = uriUnescaped_def isLeadSurrogate_def isTrailSurrogate_def surrogatePair_def
  utf8Encode_def hexDigit_def percentEncode_def escapeCodePoint_def hexValue_def
  parseHexOctet_def leadingOnes_def isContinuation_def utf16Encode_def readEscapes.simps
  split_def splitLoop.simps queryPart_def

lemmas nav_eval = navigate_def classify_def pushHistory_def slice0_def addToHistory_def
  generateMockResults_def Let_def exampleHost_def exampleHostname_def afterRender_def urlEffect_def
  handleBack_def handleForward_def elementAt_def resetBrowser_def newtabUrl_def

section \<open>The result synthesizer: hash, seeds and advertisement slots\<close>

lemma ToInt32_mod: "ToInt32 x mod 4294967296 = x mod 4294967296"
proof -
  have "ToInt32 x mod 4294967296 = ((x + 2147483648) mod 4294967296 - 2147483648) mod 4294967296"
    by (simp add: ToInt32_def)
  also have "\<dots> = (x + 2147483648 - 2147483648) mod 4294967296"
    by (rule mod_diff_left_eq)
  finally show ?thesis by simp
qed

lemma ToInt32_cong: "x mod 4294967296 = y mod 4294967296 \<Longrightarrow> ToInt32 x = ToInt32 y"
proof -
  assume "x mod 4294967296 = y mod 4294967296"
  then have "(x + 2147483648) mod 4294967296 = (y + 2147483648) mod 4294967296"
    by (rule mod_add_cong) simp
  then show ?thesis by (simp add: ToInt32_def)
qed

lemma hash_step:
  "bitOrZero ((shiftLeft (ToInt32 h) 5 - ToInt32 h) + c) = ToInt32 (31 * h + c)"
proof -
  have t: "ToInt32 (ToInt32 h) mod 4294967296 = h mod 4294967296"
    by (simp only: ToInt32_mod)
  have "shiftLeft (ToInt32 h) 5 mod 4294967296 = (ToInt32 (ToInt32 h) * 32) mod 4294967296"
    unfolding shiftLeft_def by (simp only: ToInt32_mod) simp
  also have "\<dots> = (h * 32) mod 4294967296"
    using t by (rule mod_mult_cong) simp
  finally have a: "shiftLeft (ToInt32 h) 5 mod 4294967296 = (h * 32) mod 4294967296" .
  have "(shiftLeft (ToInt32 h) 5 - ToInt32 h) mod 4294967296 = (h * 32 - h) mod 4294967296"
    using a ToInt32_mod by (rule mod_diff_cong)
  then have "(shiftLeft (ToInt32 h) 5 - ToInt32 h + c) mod 4294967296
      = (h * 32 - h + c) mod 4294967296"
    by (rule mod_add_cong) simp
  then have "(shiftLeft (ToInt32 h) 5 - ToInt32 h + c) mod 4294967296
      = (31 * h + c) mod 4294967296"
    by (simp add: algebra_simps)
  then show ?thesis
    unfolding bitOrZero_def by (rule ToInt32_cong)
qed

lemma hashLoop_foldl:
  "hashLoop (ToInt32 h) q = ToInt32 (foldl (\<lambda>a c. 31 * a + uint c) h q)"
  by (induction q arbitrary: h) (simp_all add: hash_step)

lemma foldl_polynomial:
  "foldl (\<lambda>a c. 31 * a + uint c) h q = h * 31 ^ length q + polynomialHash q"
proof (induction q rule: rev_induct)
  case Nil
  show ?case by (simp add: polynomialHash_def)
next
  case (snoc c q)
  have "polynomialHash (q @ [c])
      = (\<Sum>k<length q. uint ((q @ [c]) ! k) * 31 ^ (length q - k)) + uint c"
    by (simp add: polynomialHash_def)
  also have "(\<Sum>k<length q. uint ((q @ [c]) ! k) * 31 ^ (length q - k))
      = (\<Sum>k<length q. 31 * (uint (q ! k) * 31 ^ (length q - 1 - k)))"
  proof (rule sum.cong)
    fix k assume "k \<in> {..<length q}"
    then have k: "k < length q" by simp
    then have "length q - k = Suc (length q - 1 - k)" by simp
    with k show "uint ((q @ [c]) ! k) * 31 ^ (length q - k)
        = 31 * (uint (q ! k) * 31 ^ (length q - 1 - k))"
      by (simp add: nth_append)
  qed simp
  also have "\<dots> = 31 * polynomialHash q"
    by (simp add: polynomialHash_def sum_distrib_left)
  finally have p: "polynomialHash (q @ [c]) = 31 * polynomialHash q + uint c" .
  have "foldl (\<lambda>a c. 31 * a + uint c) h (q @ [c])
      = 31 * foldl (\<lambda>a c. 31 * a + uint c) h q + uint c"
    by simp
  also have "\<dots> = 31 * (h * 31 ^ length q + polynomialHash q) + uint c"
    by (simp only: snoc.IH)
  also have "\<dots> = h * 31 ^ length (q @ [c]) + polynomialHash (q @ [c])"
    by (simp add: p algebra_simps)
  finally show ?case .
qed

lemma hashLoop_polynomial:
  "hashLoop 0 q = (polynomialHash q + 2147483648) mod 4294967296 - 2147483648"
proof -
  have "ToInt32 0 = 0" by (simp add: ToInt32_def)
  then have "hashLoop 0 q = ToInt32 (foldl (\<lambda>a c. 31 * a + uint c) 0 q)"
    using hashLoop_foldl [of 0 q] by simp
  then show ?thesis
    by (simp add: foldl_polynomial ToInt32_def)
qed

lemma hashLoop_range: "- 2147483648 \<le> hashLoop 0 q \<and> hashLoop 0 q < 2147483648"
proof -
  have "0 \<le> (polynomialHash q + 2147483648) mod 4294967296"
    and "(polynomialHash q + 2147483648) mod 4294967296 < 4294967296"
    by simp_all
  then show ?thesis unfolding hashLoop_polynomial by linarith
qed

lemma polynomialHash_foldl: "polynomialHash q = foldl (\<lambda>a c. 31 * a + uint c) 0 q"
  using foldl_polynomial [of 0 q] by simp

lemma resultSeed_nonneg: "0 \<le> resultSeed q i"
  by (simp add: resultSeed_def seed_def)

lemma types_nth_mem: "types ! nat (resultSeed q i mod 4) \<in> set types"
proof -
  have "nat (resultSeed q i mod 4) < length types"
    by (simp add: types_def nat_less_iff)
  then show ?thesis by (rule nth_mem)
qed

lemma mockResults_nth: "i < 8 \<Longrightarrow> mockResults q ! i = mockResult q i"
  by (simp add: mockResults_def)

lemmas hash_eval = lit_def bitOrZero_def shiftLeft_def ToInt32_def seed_def resultSeed_def

text \<open>
  Claim C6, amended. For every query the synthesizer returns exactly 8 results. The hash
  is the rolling polynomial of the query's code units with 32-bit wrap-around: it lies in
  \<open>[-2^31, 2^31)\<close> and is the polynomial shifted by \<open>2^31\<close>, reduced modulo \<open>2^32\<close> and
  shifted back. The seed of slot \<open>i\<close> is the absolute value of that hash plus \<open>i\<close>; the
  tag in the slot's title is the one of the four fixed tags selected by the seed modulo 4;
  and the slot is an advertisement exactly when 4 divides its seed.
\<close>

theorem mockResults_shape:
  "length (mockResults q) = 8 \<and>
   - 2147483648 \<le> hashLoop 0 q \<and> hashLoop 0 q < 2147483648 \<and>
   hashLoop 0 q = (polynomialHash q + 2147483648) mod 4294967296 - 2147483648 \<and>
   seed q = \<bar>hashLoop 0 q\<bar> \<and>
   length types = 4 \<and>
   (\<forall>i<8. resultSeed q i = \<bar>hashLoop 0 q\<bar> + int i \<and>
      sr_title (mockResults q ! i) =
        q @ lit '' - Result '' @ toString (i + 1) @ lit '' ('' @
        types ! nat (resultSeed q i mod 4) @ lit '')'' \<and>
      types ! nat (resultSeed q i mod 4) \<in> set types \<and>
      (ads (mockResults q ! i) \<longleftrightarrow> 4 dvd resultSeed q i))"
proof -
  have "length (mockResults q) = 8" by (simp add: mockResults_def)
  moreover have "length types = 4" by (simp add: types_def)
  moreover have "\<forall>i<8. resultSeed q i = \<bar>hashLoop 0 q\<bar> + int i \<and>
      sr_title (mockResults q ! i) =
        q @ lit '' - Result '' @ toString (i + 1) @ lit '' ('' @
        types ! nat (resultSeed q i mod 4) @ lit '')'' \<and>
      types ! nat (resultSeed q i mod 4) \<in> set types \<and>
      (ads (mockResults q ! i) \<longleftrightarrow> 4 dvd resultSeed q i)"
    using \<open>length types = 4\<close>
    by (auto simp: mockResults_nth mockResult_def types_nth_mem resultSeed_def seed_def
        dvd_eq_mod_eq_0)
  moreover have "seed q = \<bar>hashLoop 0 q\<bar>" by (simp add: seed_def)
  ultimately show ?thesis using hashLoop_polynomial hashLoop_range by blast
qed

text \<open>The query \<open>open source\<close>: the polynomial is 94029177717777073, far above \<open>2^31\<close>, and
  wraps to the negative hash -127671631. The seed is 127671631, so slot 1 has seed
  127671632, tag \<open>Official\<close>, and is an advertisement.\<close>

theorem mockResults_shape_witness:
  "(1::nat) < 8 \<and> length (mockResults (lit ''open source'')) = 8 \<and>
   polynomialHash (lit ''open source'') = 94029177717777073 \<and>
   hashLoop 0 (lit ''open source'') = - 127671631 \<and>
   seed (lit ''open source'') = 127671631 \<and> resultSeed (lit ''open source'') 1 = 127671632 \<and>
   sr_title (mockResults (lit ''open source'') ! 1) = lit ''open source - Result 2 (Official)'' \<and>
   ads (mockResults (lit ''open source'') ! 1)"
proof -
  have p: "polynomialHash (lit ''open source'') = 94029177717777073"
    by (simp add: polynomialHash_foldl lit_def)
  have t: "toString (1 + 1) = lit ''2''"
    by (simp add: toString.simps lit_def)
  from mockResults_shape [of "lit ''open source''"] have
    l: "length (mockResults (lit ''open source'')) = 8" and
    h: "hashLoop 0 (lit ''open source'') =
        (polynomialHash (lit ''open source'') + 2147483648) mod 4294967296 - 2147483648" and
    s: "seed (lit ''open source'') = \<bar>hashLoop 0 (lit ''open source'')\<bar>" and
    a: "\<forall>i<8. resultSeed (lit ''open source'') i = \<bar>hashLoop 0 (lit ''open source'')\<bar> + int i \<and>
      sr_title (mockResults (lit ''open source'') ! i) =
        lit ''open source'' @ lit '' - Result '' @ toString (i + 1) @ lit '' ('' @
        types ! nat (resultSeed (lit ''open source'') i mod 4) @ lit '')'' \<and>
      (ads (mockResults (lit ''open source'') ! i) \<longleftrightarrow> 4 dvd resultSeed (lit ''open source'') i)"
    by simp_all
  from h have h': "hashLoop 0 (lit ''open source'') = - 127671631"
    by (simp only: p) simp
  from a have a1: "resultSeed (lit ''open source'') 1 = \<bar>hashLoop 0 (lit ''open source'')\<bar> + int 1 \<and>
      sr_title (mockResults (lit ''open source'') ! 1) =
        lit ''open source'' @ lit '' - Result '' @ toString (1 + 1) @ lit '' ('' @
        types ! nat (resultSeed (lit ''open source'') 1 mod 4) @ lit '')'' \<and>
      (ads (mockResults (lit ''open source'') ! 1) \<longleftrightarrow> 4 dvd resultSeed (lit ''open source'') 1)"
    by simp
  then have r: "resultSeed (lit ''open source'') 1 = 127671632"
    by (simp add: h')
  show ?thesis
    using l p h' s a1 r t by (simp add: types_def lit_def)
qed

text \<open>Claim C6 as first stated takes the seed of a slot to be the hash plus the slot index.
  For \<open>open source\<close> the hash is -127671631 and the code's seed for slot 1 is 127671632,
  not -127671630: the code flags slots 1 and 5 as advertisements, where 4 divides
  \<open>|hash| + i\<close>, and not slots 3 and 7, where 4 divides \<open>hash + i\<close> (read as a signed or as
  an unsigned 32-bit value).\<close>

theorem mockResults_shape_counterexample:
  "hashLoop 0 (lit ''open source'') = - 127671631 \<and>
   resultSeed (lit ''open source'') 1 = 127671632 \<and>
   resultSeed (lit ''open source'') 1 \<noteq> hashLoop 0 (lit ''open source'') + 1 \<and>
   ads (mockResults (lit ''open source'') ! 1) \<and>
   \<not> 4 dvd (hashLoop 0 (lit ''open source'') + 1) \<and>
   \<not> 4 dvd (hashLoop 0 (lit ''open source'') + 4294967296 + 1) \<and>
   \<not> ads (mockResults (lit ''open source'') ! 3) \<and>
   4 dvd (hashLoop 0 (lit ''open source'') + 3) \<and>
   map ads (mockResults (lit ''open source'')) =
     [False, True, False, False, False, True, False, False]"
proof -
  have h: "hashLoop 0 (lit ''open source'') = - 127671631"
    by (simp add: hash_eval)
  have r: "resultSeed (lit ''open source'') i = 127671631 + int i" for i
    by (simp add: resultSeed_def seed_def h)
  have m: "map ads (mockResults (lit ''open source'')) =
     [False, True, False, False, False, True, False, False]"
    by (simp add: mockResults_def mockResult_def r upt_rec)
  have "ads (mockResults (lit ''open source'') ! 1)" "\<not> ads (mockResults (lit ''open source'') ! 3)"
    by (simp_all add: mockResults_nth mockResult_def r)
  then show ?thesis using h r [of 1] m by simp
qed

text \<open>
  Claim C4. The synthesizer is deterministic: the results it stores for a query are the
  same whatever the state it is called in (earlier results, clock, persisted data, the
  run); they depend on the query alone.
\<close>

theorem generateMockResults_deterministic:
  "searchResults (generateMockResults q s) = searchResults (generateMockResults q s')"
  by (simp add: generateMockResults_def)

section \<open>The history stack\<close>

lemma pushHistory_history:
  "history (pushHistory u s) = slice0 (history s) (historyIndex s + 1) @ [u]"
  by (simp add: pushHistory_def Let_def)

lemma pushHistory_historyIndex:
  "historyIndex (pushHistory u s) = int (length (history (pushHistory u s))) - 1"
  by (simp add: pushHistory_def Let_def)

lemma pushHistory_url: "url (pushHistory u s) = url s"
  by (simp add: pushHistory_def Let_def)

lemma slice0_take: "0 \<le> i \<Longrightarrow> slice0 xs (i + 1) = take (nat (i + 1)) xs"
  by (simp add: slice0_def Let_def min_def)

lemma navigate_Returned:
  assumes "navigate h input s = Returned s'"
  shows "history s' = slice0 (history s) (historyIndex s + 1) @ [url s'] \<and>
         historyIndex s' = int (length (history s')) - 1"
  using assms
  by (auto simp: navigate_def Let_def pushHistory_def generateMockResults_def
      split: if_splits prod.splits option.splits)

lemma navigate_Threw:
  assumes "navigate h input s = Threw e s'"
  shows "history s' = history s \<and> historyIndex s' = historyIndex s \<and> url s' = url s"
  using assms
  by (auto simp: navigate_def Let_def pushHistory_def generateMockResults_def
      split: if_splits prod.splits option.splits)

lemma urlEffect_history:
  assumes "urlEffect s = Inr s'"
  shows "history s' = history s \<and> historyIndex s' = historyIndex s \<and> url s' = url s"
  using assms
  by (auto simp: urlEffect_def Let_def generateMockResults_def
      split: if_splits option.splits)

lemma afterRender_history:
  assumes "afterRender s0 s = Inr s'"
  shows "history s' = history s \<and> historyIndex s' = historyIndex s \<and> url s' = url s"
  using assms urlEffect_history [of s s']
  by (auto simp: afterRender_def split: if_splits)

lemma navigate_invariant: "historyInvariant s \<Longrightarrow> historyInvariant (stateOf (navigate h input s))"
proof (cases "navigate h input s")
  case (Returned s')
  from navigate_Returned [OF Returned] show ?thesis
    by (simp add: Returned historyInvariant_def)
next
  case (Threw e s')
  assume "historyInvariant s"
  with navigate_Threw [OF Threw] show ?thesis
    by (simp add: Threw historyInvariant_def)
qed

lemma handleBack_invariant:
  "historyInvariant s \<Longrightarrow> handleBack s = Inr s' \<Longrightarrow> historyInvariant s'"
  by (auto simp: handleBack_def historyInvariant_def elementAt_def split: if_splits)

lemma handleForward_invariant:
  "historyInvariant s \<Longrightarrow> handleForward s = Inr s' \<Longrightarrow> historyInvariant s'"
  by (auto simp: handleForward_def historyInvariant_def elementAt_def split: if_splits)

lemma resetBrowser_invariant: "historyInvariant (resetBrowser s)"
  by (simp add: resetBrowser_def historyInvariant_def)

lemma afterRender_invariant:
  "historyInvariant s \<Longrightarrow> afterRender s0 s = Inr s' \<Longrightarrow> historyInvariant s'"
  using afterRender_history [of s0 s s'] by (simp add: historyInvariant_def)

lemma perform_invariant:
  assumes "historyInvariant s" and "perform op s = Inr s'"
  shows "historyInvariant s'"
proof (cases op)
  case (Navigate h input)
  with assms show ?thesis
    using afterRender_invariant [OF navigate_invariant] by simp
next
  case Back
  with assms show ?thesis
    by (auto split: sum.splits dest: handleBack_invariant afterRender_invariant)
next
  case Forward
  with assms show ?thesis
    by (auto split: sum.splits dest: handleForward_invariant afterRender_invariant)
next
  case Reset
  with assms show ?thesis
    using afterRender_invariant [OF resetBrowser_invariant] by simp
qed

lemma initialState_invariant: "historyInvariant (initialState t)"
  by (simp add: initialState_def historyInvariant_def)

lemma run_invariant:
  "historyInvariant s \<Longrightarrow> run ops s = Inr s' \<Longrightarrow> historyInvariant s'"
proof (induction ops arbitrary: s)
  case Nil
  then show ?case by simp
next
  case (Cons op ops)
  from Cons.prems(2) obtain s1 where p: "perform op s = Inr s1" and r: "run ops s1 = Inr s'"
    by (auto split: sum.splits)
  from perform_invariant [OF Cons.prems(1) p] have "historyInvariant s1" .
  from Cons.IH [OF this r] show ?case .
qed

text \<open>
  Claim C1. Every state that a sequence of \<open>navigate\<close>, back, forward and reset reaches
  from the first render has \<open>0 \<le> historyIndex < history.length\<close>.
\<close>

theorem history_invariant:
  "run ops (initialState t) = Inr s \<Longrightarrow>
     0 \<le> historyIndex s \<and> historyIndex s < int (length (history s))"
proof -
  assume "run ops (initialState t) = Inr s"
  with initialState_invariant have "historyInvariant s"
    by (rule run_invariant)
  then show ?thesis by (simp add: historyInvariant_def)
qed

text \<open>After a visit to \<open>wikipedia.org\<close> and a step back the stack has two entries and
  the index is 0.\<close>

lemma visitAndBackRun_value:
  "\<exists>s. visitAndBackRun = Inr s \<and>
     history s = [lit ''chimera://newtab'', lit ''https://wikipedia.org''] \<and>
     historyIndex s = 0"
  by (simp add: visitAndBackRun_def nav_eval str_eval initialState_def)

theorem history_invariant_witness:
  "\<not> isl visitAndBackRun \<and>
   history (projr visitAndBackRun) = [lit ''chimera://newtab'', lit ''https://wikipedia.org''] \<and>
   historyIndex (projr visitAndBackRun) = 0 \<and>
   0 \<le> historyIndex (projr visitAndBackRun) \<and>
   historyIndex (projr visitAndBackRun) < int (length (history (projr visitAndBackRun)))"
proof -
  from visitAndBackRun_value obtain s where s: "visitAndBackRun = Inr s"
    and f: "history s = [lit ''chimera://newtab'', lit ''https://wikipedia.org'']"
      "historyIndex s = 0"
    by blast
  from s have "run [Navigate exampleHost (lit ''wikipedia.org''), Back] (initialState 0) = Inr s"
    by (simp only: visitAndBackRun_def)
  from history_invariant [OF this] f show ?thesis
    unfolding s by simp
qed

lemma startsWith_includes: "startsWith s p \<Longrightarrow> includes_str s p"
  by (cases s) (auto simp: startsWith_def)

lemma includes_append_left: "includes_str s p \<Longrightarrow> includes_str (xs @ s) p"
  by (induction xs) auto

lemma startsWith_append: "startsWith (p @ r) p"
  by (simp add: startsWith_def)

lemma startsWith_chimera_includes:
  assumes "startsWith t (lit ''chimera://'')"
  shows "includes_str t (lit ''://'')"
proof -
  from assms have "t = lit ''chimera://'' @ drop (length (lit ''chimera://'')) t"
    unfolding startsWith_def by (metis append_take_drop_id)
  then obtain r where "t = lit ''chimera'' @ (lit ''://'' @ r)"
    by (simp add: lit_def)
  moreover have "includes_str (lit ''://'' @ r) (lit ''://'')"
    by (rule startsWith_includes) (rule startsWith_append)
  ultimately show ?thesis
    by (simp only: includes_append_left)
qed

lemma navigate_url_verbatim:
  assumes "trim D = D" and "includes_str D (lit ''://'')"
  shows "navigate h D s = Returned (stateOf (navigate h D s)) \<and> url (stateOf (navigate h D s)) = D"
proof -
  from assms(2) have "D \<noteq> []" by (auto simp: lit_def)
  moreover from assms(2) have "classify D = (D, False)"
    by (simp add: classify_def)
  ultimately show ?thesis
    using assms(1) by (simp add: navigate_def Let_def pushHistory_def)
qed

text \<open>
  Claim C2. \<open>navigate\<close> discards the forward branch: from a non-negative index, a call
  that returns leaves the first \<open>historyIndex + 1\<close> entries of the stack followed by the
  new URL, and the index on that last entry. From the stack \<open>[A, B, C]\<close> at index 2, back
  and then \<open>navigate(D)\<close> give \<open>[A, B, u]\<close> at index 2, where \<open>u\<close> is the URL
  \<open>navigate\<close> makes of \<open>D\<close>: \<open>D\<close> itself when it is trimmed and has a scheme.
\<close>

theorem navigate_discards_forward:
  "(0 \<le> historyIndex s \<and> navigate h input s = Returned s' \<longrightarrow>
      history s' = take (nat (historyIndex s + 1)) (history s) @ [url s'] \<and>
      historyIndex s' = int (length (history s')) - 1) \<and>
   (history t = [A, B, C] \<and> historyIndex t = 2 \<and> perform Back t = Inr t1 \<and>
    navigate h D t1 = Returned t2 \<longrightarrow>
      history t2 = [A, B, url t2] \<and> historyIndex t2 = 2 \<and>
      (trim D = D \<and> includes_str D (lit ''://'') \<longrightarrow> url t2 = D))"
proof (intro conjI impI)
  assume a: "0 \<le> historyIndex s \<and> navigate h input s = Returned s'"
  with navigate_Returned [of h input s s'] slice0_take [of "historyIndex s" "history s"]
  show "history s' = take (nat (historyIndex s + 1)) (history s) @ [url s']"
    and "historyIndex s' = int (length (history s')) - 1"
    by simp_all
next
  assume b: "history t = [A, B, C] \<and> historyIndex t = 2 \<and> perform Back t = Inr t1 \<and>
    navigate h D t1 = Returned t2"
  then obtain t0 where t0: "handleBack t = Inr t0" and ar: "afterRender t t0 = Inr t1"
    by (auto split: sum.splits)
  from t0 b have "history t0 = [A, B, C] \<and> historyIndex t0 = 1"
    by (auto simp: handleBack_def elementAt_def split: if_splits)
  with afterRender_history [OF ar] have t1: "history t1 = [A, B, C]" "historyIndex t1 = 1"
    by simp_all
  from b navigate_Returned [of h D t1 t2] t1
  show h2: "history t2 = [A, B, url t2]"
    by (simp add: slice0_def)
  from b navigate_Returned [of h D t1 t2] h2 show "historyIndex t2 = 2"
    by simp
  assume "trim D = D \<and> includes_str D (lit ''://'')"
  with navigate_url_verbatim [of D h t1] b show "url t2 = D"
    by simp
qed

text \<open>The stack \<open>[chimera://newtab, https://b.org, https://c.org]\<close> at index 2, back,
  then \<open>navigate("https://d.org")\<close>.\<close>

lemma forwardBranch_back:
  "perform Back forwardBranchState =
     Inr (forwardBranchState\<lparr>historyIndex := 1, url := lit ''https://b.org'',
            inputValue := lit ''https://b.org''\<rparr>)"
  by (simp add: forwardBranchState_def nav_eval str_eval initialState_def)

theorem navigate_discards_forward_witness:
  "history forwardBranchState =
     [lit ''chimera://newtab'', lit ''https://b.org'', lit ''https://c.org''] \<and>
   historyIndex forwardBranchState = 2 \<and>
   \<not> isl (perform Back forwardBranchState) \<and>
   trim (lit ''https://d.org'') = lit ''https://d.org'' \<and>
   includes_str (lit ''https://d.org'') (lit ''://'') \<and>
   history (stateOf (navigate exampleHost (lit ''https://d.org'') (projr (perform Back forwardBranchState)))) =
     [lit ''chimera://newtab'', lit ''https://b.org'', lit ''https://d.org''] \<and>
   historyIndex (stateOf (navigate exampleHost (lit ''https://d.org'') (projr (perform Back forwardBranchState)))) = 2"
proof -
  obtain t1 where b: "perform Back forwardBranchState = Inr t1"
    using forwardBranch_back by blast
  let ?t2 = "stateOf (navigate exampleHost (lit ''https://d.org'') t1)"
  have s: "history forwardBranchState =
      [lit ''chimera://newtab'', lit ''https://b.org'', lit ''https://c.org'']"
    "historyIndex forwardBranchState = 2"
    by (simp_all add: forwardBranchState_def)
  have d: "trim (lit ''https://d.org'') = lit ''https://d.org''"
    "includes_str (lit ''https://d.org'') (lit ''://'')"
    by (simp_all add: str_eval)
  have n: "navigate exampleHost (lit ''https://d.org'') t1 = Returned ?t2"
    using navigate_url_verbatim [OF d] by simp
  from navigate_discards_forward [of t1 exampleHost "lit ''https://d.org''" ?t2 forwardBranchState
      "lit ''chimera://newtab''" "lit ''https://b.org''" "lit ''https://c.org''" t1
      "lit ''https://d.org''" ?t2] s b d n
  have "history ?t2 = [lit ''chimera://newtab'', lit ''https://b.org'', lit ''https://d.org''] \<and>
      historyIndex ?t2 = 2"
    by (simp del: perform.simps)
  with s d show ?thesis
    unfolding b by simp
qed

section \<open>Classification\<close>

lemma classify_host:
  assumes "\<not> includes_str t (lit ''://'')"
    and "includes_str t (lit ''.'')" and "\<not> includes_str t (lit '' '')"
  shows "classify t = (if startsWith t (lit ''http'') then t else lit ''https://'' @ t, False)"
  using assms startsWith_chimera_includes [of t]
  by (auto simp: classify_def)

lemma classify_search:
  assumes "\<not> includes_str t (lit ''://'')"
    and "\<not> (includes_str t (lit ''.'') \<and> \<not> includes_str t (lit '' ''))"
  shows "classify t = (t, True)"
  using assms startsWith_chimera_includes [of t]
  by (auto simp: classify_def)

lemma navigate_host:
  assumes "trim input = input" and "input \<noteq> []" and "input \<noteq> lit ''chimera://newtab''"
    and "\<not> includes_str input (lit ''://'')"
    and "includes_str input (lit ''.'')" and "\<not> includes_str input (lit '' '')"
  shows "\<exists>s'. navigate h input s = Returned s' \<and> internalPage s' = external \<and>
           url s' = (if startsWith input (lit ''http'') then input else lit ''https://'' @ input)"
  using assms
  by (simp add: navigate_def classify_host Let_def pushHistory_def)

lemma navigate_search:
  assumes "trim input = input" and "input \<noteq> []" and "input \<noteq> lit ''chimera://newtab''"
    and "\<not> includes_str input (lit ''://'')"
    and "\<not> (includes_str input (lit ''.'') \<and> \<not> includes_str input (lit '' ''))"
    and "encodeURIComponent input = Some q"
  shows "\<exists>s'. navigate h input s = Returned s' \<and> internalPage s' = search \<and>
           searchQuery s' = input \<and> url s' = lit ''chimera://search?q='' @ q \<and>
           searchResults s' = mockResults input"
  using assms
  by (simp add: navigate_def classify_search Let_def pushHistory_def generateMockResults_def)

lemma navigate_search_throws:
  assumes "trim input = input" and "input \<noteq> []" and "input \<noteq> lit ''chimera://newtab''"
    and "\<not> includes_str input (lit ''://'')"
    and "\<not> (includes_str input (lit ''.'') \<and> \<not> includes_str input (lit '' ''))"
    and "encodeURIComponent input = None"
  shows "navigate h input s =
    Threw URIError (s\<lparr>isLoading := True,
      adBlockStats := (adBlockStats s)\<lparr>sessionBlocked := 0\<rparr>,
      internalPage := search, searchQuery := input\<rparr>)"
  using assms
  by (simp add: navigate_def classify_search Let_def)

text \<open>
  Claim C5, amended. For a trimmed input that is not empty, not the new-tab address and has
  no \<open>://\<close>: if it has a \<open>.\<close> and no space (U+0020), \<open>navigate\<close> shows the
  external page, and the URL is \<open>https://\<close> followed by the input when the input does
  not begin with \<open>http\<close>; otherwise, when \<open>encodeURIComponent\<close> accepts the input,
  \<open>navigate\<close> shows the search page with the input as the query, the URL is
  \<open>chimera://search?q=\<close> followed by the encoded input, and the results are the 8
  synthesized for the input.
\<close>

theorem navigate_classification:
  assumes "trim input = input" and "input \<noteq> []" and "input \<noteq> lit ''chimera://newtab''"
    and "\<not> includes_str input (lit ''://'')"
  shows "(includes_str input (lit ''.'') \<and> \<not> includes_str input (lit '' '') \<longrightarrow>
            (\<exists>s'. navigate h input s = Returned s' \<and> internalPage s' = external \<and>
               (\<not> startsWith input (lit ''http'') \<longrightarrow> url s' = lit ''https://'' @ input))) \<and>
         (\<not> (includes_str input (lit ''.'') \<and> \<not> includes_str input (lit '' '')) \<longrightarrow>
            (\<forall>q. encodeURIComponent input = Some q \<longrightarrow>
               (\<exists>s'. navigate h input s = Returned s' \<and> internalPage s' = search \<and>
                  searchQuery s' = input \<and>
                  url s' = lit ''chimera://search?q='' @ q \<and>
                  searchResults s' = mockResults input \<and> length (searchResults s') = 8)))"
proof (intro conjI impI allI)
  assume "includes_str input (lit ''.'') \<and> \<not> includes_str input (lit '' '')"
  with navigate_host [OF assms, of h s]
  show "\<exists>s'. navigate h input s = Returned s' \<and> internalPage s' = external \<and>
               (\<not> startsWith input (lit ''http'') \<longrightarrow> url s' = lit ''https://'' @ input)"
    by auto
next
  fix q
  assume a: "\<not> (includes_str input (lit ''.'') \<and> \<not> includes_str input (lit '' ''))"
    and "encodeURIComponent input = Some q"
  from navigate_search [OF assms this, of h s]
  show "\<exists>s'. navigate h input s = Returned s' \<and> internalPage s' = search \<and>
                  searchQuery s' = input \<and>
                  url s' = lit ''chimera://search?q='' @ q \<and>
                  searchResults s' = mockResults input \<and> length (searchResults s') = 8"
    by auto
qed

text \<open>\<open>wikipedia.org\<close> becomes the external page \<open>https://wikipedia.org\<close>, and
  \<open>best coffee shop\<close> the search page \<open>chimera://search?q=best%20coffee%20shop\<close> with
  8 results.\<close>

lemma wikipedia_hyps:
  "trim (lit ''wikipedia.org'') = lit ''wikipedia.org''"
  "lit ''wikipedia.org'' \<noteq> []"
  "lit ''wikipedia.org'' \<noteq> lit ''chimera://newtab''"
  "\<not> includes_str (lit ''wikipedia.org'') (lit ''://'')"
  "includes_str (lit ''wikipedia.org'') (lit ''.'')"
  "\<not> includes_str (lit ''wikipedia.org'') (lit '' '')"
  "\<not> startsWith (lit ''wikipedia.org'') (lit ''http'')"
  by (simp_all add: str_eval)

lemma coffee_hyps:
  "trim (lit ''best coffee shop'') = lit ''best coffee shop''"
  "lit ''best coffee shop'' \<noteq> []"
  "lit ''best coffee shop'' \<noteq> lit ''chimera://newtab''"
  "\<not> includes_str (lit ''best coffee shop'') (lit ''://'')"
  "includes_str (lit ''best coffee shop'') (lit '' '')"
  by (simp_all add: str_eval)

lemma coffee_encoded:
  "encodeURIComponent (lit ''best coffee shop'') = Some (lit ''best%20coffee%20shop'')"
  by (simp add: lit_def uri_eval)

theorem navigate_classification_witness:
  "trim (lit ''wikipedia.org'') = lit ''wikipedia.org'' \<and>
   \<not> includes_str (lit ''wikipedia.org'') (lit ''://'') \<and>
   includes_str (lit ''wikipedia.org'') (lit ''.'') \<and>
   \<not> includes_str (lit ''wikipedia.org'') (lit '' '') \<and>
   internalPage (stateOf (navigate exampleHost (lit ''wikipedia.org'') (initialState 0))) = external \<and>
   url (stateOf (navigate exampleHost (lit ''wikipedia.org'') (initialState 0))) =
     lit ''https://wikipedia.org'' \<and>
   trim (lit ''best coffee shop'') = lit ''best coffee shop'' \<and>
   \<not> includes_str (lit ''best coffee shop'') (lit ''://'') \<and>
   includes_str (lit ''best coffee shop'') (lit '' '') \<and>
   internalPage (stateOf (navigate exampleHost (lit ''best coffee shop'') (initialState 0))) = search \<and>
   url (stateOf (navigate exampleHost (lit ''best coffee shop'') (initialState 0))) =
     lit ''chimera://search?q=best%20coffee%20shop'' \<and>
   searchResults (stateOf (navigate exampleHost (lit ''best coffee shop'') (initialState 0))) =
     mockResults (lit ''best coffee shop'') \<and>
   length (searchResults (stateOf (navigate exampleHost (lit ''best coffee shop'') (initialState 0)))) = 8"
proof -
  have w: "\<exists>s'. navigate exampleHost (lit ''wikipedia.org'') (initialState 0) = Returned s' \<and>
      internalPage s' = external \<and> url s' = lit ''https://'' @ lit ''wikipedia.org''"
    using navigate_classification [OF wikipedia_hyps(1-4), of exampleHost "initialState 0"]
      wikipedia_hyps(5-7) by blast
  have c: "\<exists>s'. navigate exampleHost (lit ''best coffee shop'') (initialState 0) = Returned s' \<and>
         internalPage s' = search \<and>
         url s' = lit ''chimera://search?q='' @ lit ''best%20coffee%20shop'' \<and>
         searchResults s' = mockResults (lit ''best coffee shop'') \<and> length (searchResults s') = 8"
    using navigate_classification [OF coffee_hyps(1-4), of exampleHost "initialState 0"]
      coffee_hyps(5) coffee_encoded by blast
  have l: "lit ''https://'' @ lit ''wikipedia.org'' = lit ''https://wikipedia.org''"
    "lit ''chimera://search?q='' @ lit ''best%20coffee%20shop'' = lit ''chimera://search?q=best%20coffee%20shop''"
    by (simp_all add: lit_def)
  from w c show ?thesis
    using wikipedia_hyps coffee_hyps by (auto simp: l)
qed

text \<open>Claim C5 as first stated fails in three places. \<open>a.b<TAB>c\<close> has white space and
  is yet taken for a host. \<open>httpbin.org\<close> is a bare host and gets no scheme. A lead
  surrogate on its own is a search query for which \<open>navigate\<close> throws before it sets a
  URL or any results.\<close>

lemma tabbed_hyps:
  "trim tabbedInput = tabbedInput" "tabbedInput \<noteq> []"
  "tabbedInput \<noteq> lit ''chimera://newtab''"
  "\<not> includes_str tabbedInput (lit ''://'')"
  "includes_str tabbedInput (lit ''.'')" "\<not> includes_str tabbedInput (lit '' '')"
  "\<not> startsWith tabbedInput (lit ''http'')"
  "isWhiteSpace (tabbedInput ! 3)"
  by (simp_all add: tabbedInput_def str_eval)

lemma httpHost_hyps:
  "trim httpHostInput = httpHostInput" "httpHostInput \<noteq> []"
  "httpHostInput \<noteq> lit ''chimera://newtab''"
  "\<not> includes_str httpHostInput (lit ''://'')"
  "includes_str httpHostInput (lit ''.'')" "\<not> includes_str httpHostInput (lit '' '')"
  "startsWith httpHostInput (lit ''http'')"
  by (simp_all add: httpHostInput_def str_eval)

lemma loneSurrogate_hyps:
  "trim loneSurrogateInput = loneSurrogateInput" "loneSurrogateInput \<noteq> []"
  "loneSurrogateInput \<noteq> lit ''chimera://newtab''"
  "\<not> includes_str loneSurrogateInput (lit ''://'')"
  "\<not> includes_str loneSurrogateInput (lit ''.'')"
  by (simp_all add: loneSurrogateInput_def str_eval)

lemma loneSurrogate_rejected: "encodeURIComponent loneSurrogateInput = None"
  by (simp add: loneSurrogateInput_def uri_eval)

theorem navigate_classification_counterexample:
  "trim tabbedInput = tabbedInput \<and> tabbedInput \<noteq> [] \<and>
   tabbedInput \<noteq> lit ''chimera://newtab'' \<and>
   \<not> includes_str tabbedInput (lit ''://'') \<and>
   includes_str tabbedInput (lit ''.'') \<and>
   isWhiteSpace (tabbedInput ! 3) \<and>
   internalPage (stateOf (navigate exampleHost tabbedInput (initialState 0))) = external \<and>
   url (stateOf (navigate exampleHost tabbedInput (initialState 0))) = lit ''https://'' @ tabbedInput \<and>
   trim httpHostInput = httpHostInput \<and> httpHostInput \<noteq> [] \<and>
   httpHostInput \<noteq> lit ''chimera://newtab'' \<and>
   \<not> includes_str httpHostInput (lit ''://'') \<and>
   includes_str httpHostInput (lit ''.'') \<and>
   \<not> includes_str httpHostInput (lit '' '') \<and>
   internalPage (stateOf (navigate exampleHost httpHostInput (initialState 0))) = external \<and>
   url (stateOf (navigate exampleHost httpHostInput (initialState 0))) = lit ''httpbin.org'' \<and>
   lit ''httpbin.org'' \<noteq> lit ''https://httpbin.org'' \<and>
   trim loneSurrogateInput = loneSurrogateInput \<and> loneSurrogateInput \<noteq> [] \<and>
   loneSurrogateInput \<noteq> lit ''chimera://newtab'' \<and>
   \<not> includes_str loneSurrogateInput (lit ''://'') \<and>
   \<not> includes_str loneSurrogateInput (lit ''.'') \<and>
   navigate exampleHost loneSurrogateInput (initialState 0) =
     Threw URIError (stateOf (navigate exampleHost loneSurrogateInput (initialState 0))) \<and>
   url (stateOf (navigate exampleHost loneSurrogateInput (initialState 0))) = lit ''chimera://newtab'' \<and>
   searchResults (stateOf (navigate exampleHost loneSurrogateInput (initialState 0))) = []"
proof -
  from navigate_host [OF tabbed_hyps(1-6), of exampleHost "initialState 0"] tabbed_hyps(7)
  have t: "internalPage (stateOf (navigate exampleHost tabbedInput (initialState 0))) = external"
    "url (stateOf (navigate exampleHost tabbedInput (initialState 0))) = lit ''https://'' @ tabbedInput"
    by auto
  from navigate_host [OF httpHost_hyps(1-6), of exampleHost "initialState 0"] httpHost_hyps(7)
  have h: "internalPage (stateOf (navigate exampleHost httpHostInput (initialState 0))) = external"
    "url (stateOf (navigate exampleHost httpHostInput (initialState 0))) = lit ''httpbin.org''"
    by (auto simp: httpHostInput_def)
  have n: "\<not> (includes_str loneSurrogateInput (lit ''.'') \<and>
      \<not> includes_str loneSurrogateInput (lit '' ''))"
    using loneSurrogate_hyps(5) by simp
  have l: "navigate exampleHost loneSurrogateInput (initialState 0) =
      Threw URIError (stateOf (navigate exampleHost loneSurrogateInput (initialState 0)))"
    "url (stateOf (navigate exampleHost loneSurrogateInput (initialState 0))) = lit ''chimera://newtab''"
    "searchResults (stateOf (navigate exampleHost loneSurrogateInput (initialState 0))) = []"
    unfolding navigate_search_throws [OF loneSurrogate_hyps(1-4) n loneSurrogate_rejected]
    by (simp_all add: initialState_def newtabUrl_def)
  have d: "lit ''httpbin.org'' \<noteq> lit ''https://httpbin.org''"
    by (simp add: lit_def)
  from t h l d tabbed_hyps httpHost_hyps loneSurrogate_hyps show ?thesis
    by simp
qed

section \<open>The URL effect\<close>

text \<open>What the effect derives from the URL: the page from its shape, the query by
  decoding, and results only where none are stored.\<close>

lemma urlEffect_page:
  assumes "urlEffect s = Inr s'"
  shows "internalPage s' =
    (if url s = lit ''chimera://newtab'' then newtab
     else if startsWith (url s) (lit ''chimera://search'') then search else external)"
  using assms
  by (auto simp: urlEffect_def Let_def generateMockResults_def split: if_splits option.splits)

lemma urlEffect_search:
  assumes "urlEffect s = Inr s'" and "url s \<noteq> lit ''chimera://newtab''"
    and "startsWith (url s) (lit ''chimera://search'')"
  shows "decodeURIComponent (queryPart (url s)) = Some (searchQuery s') \<and>
    searchResults s' =
      (if length (searchResults s) = 0 then mockResults (searchQuery s') else searchResults s)"
  using assms
  by (auto simp: urlEffect_def Let_def generateMockResults_def split: if_splits option.splits)

lemma searchUrl_shape:
  "lit ''chimera://search?q='' @ q \<noteq> lit ''chimera://newtab''"
  "startsWith (lit ''chimera://search?q='' @ q) (lit ''chimera://search'')"
  by (simp_all add: lit_def startsWith_def)

lemma hostUrl_shape:
  "lit ''https://'' @ t \<noteq> lit ''chimera://newtab''"
  "\<not> startsWith (lit ''https://'' @ t) (lit ''chimera://search'')"
  by (simp_all add: lit_def startsWith_def)

lemma urlEffect_on_search:
  assumes "url s = lit ''chimera://search?q='' @ q"
    and "decodeURIComponent (queryPart (url s)) = Some query"
  shows "urlEffect s =
    Inr (if length (searchResults s) = 0
         then s\<lparr>inputValue := query, internalPage := search, searchQuery := query,
                searchResults := mockResults query\<rparr>
         else s\<lparr>inputValue := query, internalPage := search, searchQuery := query\<rparr>)"
proof -
  from assms(1) searchUrl_shape [of q] have "url s \<noteq> lit ''chimera://newtab''"
    and "startsWith (url s) (lit ''chimera://search'')"
    by simp_all
  with assms(2) show ?thesis
    by (simp add: urlEffect_def Let_def generateMockResults_def)
qed

text \<open>A visit to a bare host and a search, after the next render, when the effect has
  run; the search under the condition that its URL decodes to the query again.\<close>

lemma perform_host:
  assumes "trim input = input" and "input \<noteq> []" and "input \<noteq> lit ''chimera://newtab''"
    and "\<not> includes_str input (lit ''://'')"
    and "includes_str input (lit ''.'')" and "\<not> includes_str input (lit '' '')"
    and "\<not> startsWith input (lit ''http'')"
  shows "\<exists>s'. perform (Navigate h input) s = Inr s' \<and> internalPage s' = external \<and>
           url s' = lit ''https://'' @ input"
proof -
  from navigate_host [OF assms(1-6), of h s] assms(7) obtain t
    where n: "navigate h input s = Returned t" and f: "internalPage t = external"
      "url t = lit ''https://'' @ input"
    by auto
  from f(2) hostUrl_shape [of input]
  have "urlEffect t = Inr (t\<lparr>inputValue := url t, internalPage := external\<rparr>)"
    by (simp add: urlEffect_def Let_def)
  with n f show ?thesis
    by (simp add: afterRender_def)
qed

lemma perform_search:
  assumes "trim input = input" and "input \<noteq> []" and "input \<noteq> lit ''chimera://newtab''"
    and "\<not> includes_str input (lit ''://'')"
    and "\<not> (includes_str input (lit ''.'') \<and> \<not> includes_str input (lit '' ''))"
    and "encodeURIComponent input = Some q"
    and "decodeURIComponent (queryPart (lit ''chimera://search?q='' @ q)) = Some input"
  shows "\<exists>s'. perform (Navigate h input) s = Inr s' \<and>
           url s' = lit ''chimera://search?q='' @ q \<and>
           internalPage s' = search \<and> searchQuery s' = input \<and>
           searchResults s' = mockResults input \<and>
           history s' = slice0 (history s) (historyIndex s + 1) @ [lit ''chimera://search?q='' @ q] \<and>
           historyIndex s' = int (length (history s')) - 1"
proof -
  from navigate_search [OF assms(1-6), of h s] obtain t
    where n: "navigate h input s = Returned t"
      and f: "internalPage t = search" "searchQuery t = input"
        "url t = lit ''chimera://search?q='' @ q" "searchResults t = mockResults input"
    by blast
  from navigate_Returned [OF n] f(3)
  have hi: "history t = slice0 (history s) (historyIndex s + 1) @ [lit ''chimera://search?q='' @ q]"
    "historyIndex t = int (length (history t)) - 1"
    by simp_all
  from assms(7) f(3) have d: "decodeURIComponent (queryPart (url t)) = Some input"
    by simp
  have e: "urlEffect t = Inr (t\<lparr>inputValue := input, internalPage := search, searchQuery := input\<rparr>)"
    using urlEffect_on_search [OF f(3) d] f(4) by simp
  show ?thesis
  proof (cases "url t = url s")
    case True
    with n f hi show ?thesis
      by (simp add: afterRender_def)
  next
    case False
    with n e f hi show ?thesis
      by (simp add: afterRender_def)
  qed
qed

text \<open>The two visits of claim C5 after the next render, from any state.\<close>

lemma wikipedia_url: "lit ''https://'' @ lit ''wikipedia.org'' = lit ''https://wikipedia.org''"
  by (simp add: lit_def)

lemma coffee_url:
  "lit ''chimera://search?q='' @ lit ''best%20coffee%20shop'' =
     lit ''chimera://search?q=best%20coffee%20shop''"
  by (simp add: lit_def)

lemma coffee_decoded:
  "decodeURIComponent (queryPart (lit ''chimera://search?q=best%20coffee%20shop'')) =
     Some (lit ''best coffee shop'')"
  by (simp add: lit_def uri_eval startsWith_def)

lemma wikipedia_after_render:
  "\<exists>s'. perform (Navigate h (lit ''wikipedia.org'')) s = Inr s' \<and>
     internalPage s' = external \<and> url s' = lit ''https://wikipedia.org''"
  using perform_host [OF wikipedia_hyps, of h s] by (simp only: wikipedia_url)

lemma coffee_after_render:
  "\<exists>s'. perform (Navigate h (lit ''best coffee shop'')) s = Inr s' \<and>
     internalPage s' = search \<and> searchQuery s' = lit ''best coffee shop'' \<and>
     url s' = lit ''chimera://search?q=best%20coffee%20shop'' \<and>
     searchResults s' = mockResults (lit ''best coffee shop'')"
proof -
  have n: "\<not> (includes_str (lit ''best coffee shop'') (lit ''.'') \<and>
      \<not> includes_str (lit ''best coffee shop'') (lit '' ''))"
    using coffee_hyps(5) by simp
  have d: "decodeURIComponent (queryPart (lit ''chimera://search?q='' @ lit ''best%20coffee%20shop'')) =
      Some (lit ''best coffee shop'')"
    using coffee_decoded by (simp only: coffee_url)
  from perform_search [OF coffee_hyps(1-4) n coffee_encoded d, of h s] show ?thesis
    unfolding coffee_url by blast
qed

section \<open>Back and forward\<close>

text \<open>At the ends of the stack back and forward change nothing; inside it they move the
  index by one and make the entry there the current URL.\<close>

lemma back_noop: "historyIndex s = 0 \<Longrightarrow> perform Back s = Inr s"
  by (simp add: handleBack_def afterRender_def)

lemma forward_noop:
  "historyIndex s = int (length (history s)) - 1 \<Longrightarrow> perform Forward s = Inr s"
  by (simp add: handleForward_def afterRender_def)

lemma back_moves_by_one:
  assumes "0 < historyIndex s" and "historyIndex s < int (length (history s))"
    and "perform Back s = Inr s'"
  shows "historyIndex s' = historyIndex s - 1 \<and> url s' = history s ! nat (historyIndex s - 1) \<and>
         history s' = history s"
proof -
  from assms obtain t where t: "handleBack s = Inr t" and r: "afterRender s t = Inr s'"
    by (auto split: sum.splits)
  from t assms(1,2) have "historyIndex t = historyIndex s - 1 \<and>
      url t = history s ! nat (historyIndex s - 1) \<and> history t = history s"
    by (auto simp: handleBack_def elementAt_def split: if_splits)
  with afterRender_history [OF r] show ?thesis by simp
qed

lemma forward_moves_by_one:
  assumes "0 \<le> historyIndex s" and "historyIndex s < int (length (history s)) - 1"
    and "perform Forward s = Inr s'"
  shows "historyIndex s' = historyIndex s + 1 \<and> url s' = history s ! nat (historyIndex s + 1) \<and>
         history s' = history s"
proof -
  from assms obtain t where t: "handleForward s = Inr t" and r: "afterRender s t = Inr s'"
    by (auto split: sum.splits)
  from t assms(1,2) have "historyIndex t = historyIndex s + 1 \<and>
      url t = history s ! nat (historyIndex s + 1) \<and> history t = history s"
    by (auto simp: handleForward_def elementAt_def split: if_splits)
  with afterRender_history [OF r] show ?thesis by simp
qed

text \<open>A step back onto a search URL while results are stored: the page and the query
  follow the URL, the results stay.\<close>

lemma perform_back_search:
  assumes "0 < historyIndex s" and "historyIndex s < int (length (history s))"
    and "history s ! nat (historyIndex s - 1) = lit ''chimera://search?q='' @ q"
    and "url s \<noteq> lit ''chimera://search?q='' @ q"
    and "decodeURIComponent (queryPart (lit ''chimera://search?q='' @ q)) = Some query"
    and "searchResults s \<noteq> []"
  shows "\<exists>s'. perform Back s = Inr s' \<and>
           url s' = lit ''chimera://search?q='' @ q \<and>
           historyIndex s' = historyIndex s - 1 \<and> history s' = history s \<and>
           internalPage s' = search \<and> searchQuery s' = query \<and>
           searchResults s' = searchResults s"
proof -
  let ?t = "s\<lparr>historyIndex := historyIndex s - 1, url := lit ''chimera://search?q='' @ q\<rparr>"
  from assms(1-3) have b: "handleBack s = Inr ?t"
    by (simp add: handleBack_def elementAt_def)
  have u: "url ?t = lit ''chimera://search?q='' @ q"
    by simp
  from assms(5) have d: "decodeURIComponent (queryPart (url ?t)) = Some query"
    by simp
  from urlEffect_on_search [OF u d] assms(6)
  have "urlEffect ?t = Inr (?t\<lparr>inputValue := query, internalPage := search, searchQuery := query\<rparr>)"
    by simp
  with b assms(4) show ?thesis
    by (simp add: afterRender_def)
qed

lemma foo_hyps:
  "trim (lit ''foo'') = lit ''foo''" "lit ''foo'' \<noteq> []" "lit ''foo'' \<noteq> lit ''chimera://newtab''"
  "\<not> includes_str (lit ''foo'') (lit ''://'')"
  "\<not> (includes_str (lit ''foo'') (lit ''.'') \<and> \<not> includes_str (lit ''foo'') (lit '' ''))"
  by (simp_all add: str_eval)

lemma bar_hyps:
  "trim (lit ''bar'') = lit ''bar''" "lit ''bar'' \<noteq> []" "lit ''bar'' \<noteq> lit ''chimera://newtab''"
  "\<not> includes_str (lit ''bar'') (lit ''://'')"
  "\<not> (includes_str (lit ''bar'') (lit ''.'') \<and> \<not> includes_str (lit ''bar'') (lit '' ''))"
  by (simp_all add: str_eval)

lemma search_urls:
  "lit ''chimera://search?q='' @ lit ''foo'' = lit ''chimera://search?q=foo''"
  "lit ''chimera://search?q='' @ lit ''bar'' = lit ''chimera://search?q=bar''"
  "lit ''chimera://search?q=foo'' \<noteq> lit ''chimera://search?q=bar''"
  by (simp_all add: lit_def)

lemma foo_encoded: "encodeURIComponent (lit ''foo'') = Some (lit ''foo'')"
  by (simp add: lit_def uri_eval)

lemma bar_encoded: "encodeURIComponent (lit ''bar'') = Some (lit ''bar'')"
  by (simp add: lit_def uri_eval)

lemma foo_decoded: "decodeURIComponent (queryPart (lit ''chimera://search?q=foo'')) = Some (lit ''foo'')"
  by (simp add: lit_def uri_eval startsWith_def)

lemma bar_decoded: "decodeURIComponent (queryPart (lit ''chimera://search?q=bar'')) = Some (lit ''bar'')"
  by (simp add: lit_def uri_eval startsWith_def)

lemma mockResults_bar_foo: "mockResults (lit ''bar'') \<noteq> mockResults (lit ''foo'')"
proof
  assume "mockResults (lit ''bar'') = mockResults (lit ''foo'')"
  then have "sr_title (mockResults (lit ''bar'') ! 0) = sr_title (mockResults (lit ''foo'') ! 0)"
    by simp
  then show False
    by (simp add: mockResults_nth mockResult_def lit_def)
qed

lemma staleResultsRun_value:
  "\<exists>s. staleResultsRun = Inr s \<and>
     history s =
       [lit ''chimera://newtab'', lit ''chimera://search?q=foo'', lit ''chimera://search?q=bar''] \<and>
     historyIndex s = 1 \<and>
     url s = lit ''chimera://search?q=foo'' \<and>
     internalPage s = search \<and>
     searchQuery s = lit ''foo'' \<and>
     searchResults s = mockResults (lit ''bar'')"
proof -
  have i: "history (initialState 0) = [lit ''chimera://newtab'']" "historyIndex (initialState 0) = 0"
    by (simp_all add: initialState_def newtabUrl_def)
  from perform_search [OF foo_hyps foo_encoded, of exampleHost "initialState 0"] foo_decoded
  obtain s1 where 1: "perform (Navigate exampleHost (lit ''foo'')) (initialState 0) = Inr s1"
    and f1: "history s1 = [lit ''chimera://newtab'', lit ''chimera://search?q=foo'']"
      "historyIndex s1 = 1"
    by (auto simp: search_urls i slice0_def)
  from perform_search [OF bar_hyps bar_encoded, of exampleHost s1] bar_decoded
  obtain s2 where 2: "perform (Navigate exampleHost (lit ''bar'')) s1 = Inr s2"
    and f2: "history s2 = [lit ''chimera://newtab'', lit ''chimera://search?q=foo'',
        lit ''chimera://search?q=bar'']"
      "historyIndex s2 = 2" "url s2 = lit ''chimera://search?q=bar''"
      "searchResults s2 = mockResults (lit ''bar'')"
    by (auto simp: search_urls f1 slice0_def)
  have "length (searchResults s2) = 8"
    by (simp add: f2(4))
  then have r: "searchResults s2 \<noteq> []"
    by auto
  have p: "0 < historyIndex s2" "historyIndex s2 < int (length (history s2))"
    "history s2 ! nat (historyIndex s2 - 1) = lit ''chimera://search?q='' @ lit ''foo''"
    "url s2 \<noteq> lit ''chimera://search?q='' @ lit ''foo''"
    by (simp_all add: f2 lit_def)
  have d: "decodeURIComponent (queryPart (lit ''chimera://search?q='' @ lit ''foo'')) =
      Some (lit ''foo'')"
    using foo_decoded by (simp only: search_urls)
  from perform_back_search [OF p d r]
  obtain s3 where 3: "perform Back s2 = Inr s3"
    and g: "url s3 = lit ''chimera://search?q='' @ lit ''foo''"
      "historyIndex s3 = historyIndex s2 - 1"
      "history s3 = history s2" "internalPage s3 = search" "searchQuery s3 = lit ''foo''"
      "searchResults s3 = searchResults s2"
    by blast
  from g f2 have f3: "url s3 = lit ''chimera://search?q=foo''" "historyIndex s3 = 1"
    by (simp_all add: search_urls)
  from 1 2 3 have "staleResultsRun = Inr s3"
    by (simp add: staleResultsRun_def)
  with f2 f3 g show ?thesis
    by (intro exI [of _ s3]) simp
qed

text \<open>
  Claim C3, where the code departs from it. After the searches \<open>foo\<close> and \<open>bar\<close>, a
  step back makes the URL and the query those of \<open>foo\<close> and the page the search page,
  but the results stay those of \<open>bar\<close>: the effect synthesizes results only when none
  are stored.
\<close>

theorem back_shows_stale_results:
  "\<not> isl staleResultsRun \<and>
   historyIndex (projr staleResultsRun) = 1 \<and>
   url (projr staleResultsRun) = lit ''chimera://search?q=foo'' \<and>
   internalPage (projr staleResultsRun) = search \<and>
   searchQuery (projr staleResultsRun) = lit ''foo'' \<and>
   searchResults (projr staleResultsRun) = mockResults (lit ''bar'') \<and>
   searchResults (projr staleResultsRun) \<noteq> mockResults (lit ''foo'')"
proof -
  from staleResultsRun_value obtain s where s: "staleResultsRun = Inr s"
    and f: "historyIndex s = 1" "url s = lit ''chimera://search?q=foo''"
      "internalPage s = search" "searchQuery s = lit ''foo''"
      "searchResults s = mockResults (lit ''bar'')"
    by blast
  show ?thesis
    unfolding s using f mockResults_bar_foo by simp
qed

section \<open>Download progress\<close>

subsection \<open>Rounding to a double is monotone\<close>

lemma roundHalfEven_range: "\<lfloor>q\<rfloor> \<le> roundHalfEven q \<and> roundHalfEven q \<le> \<lfloor>q\<rfloor> + 1"
  by (simp add: roundHalfEven_def Let_def)

lemma roundHalfEven_of_int: "roundHalfEven (of_int m) = m"
  by (simp add: roundHalfEven_def)

lemma roundHalfEven_mono:
  assumes "q \<le> q'" shows "roundHalfEven q \<le> roundHalfEven q'"
proof (cases "\<lfloor>q\<rfloor> = \<lfloor>q'\<rfloor>")
  case True
  with assms show ?thesis by (auto simp: roundHalfEven_def Let_def)
next
  case False
  with assms have "\<lfloor>q\<rfloor> < \<lfloor>q'\<rfloor>" using floor_mono [OF assms] by linarith
  then have "\<lfloor>q\<rfloor> + 1 \<le> \<lfloor>q'\<rfloor>" by simp
  with roundHalfEven_range [of q] roundHalfEven_range [of q'] show ?thesis by linarith
qed

lemma roundHalfEven_minus: "roundHalfEven (- q) = - roundHalfEven q"
proof (cases "q = of_int \<lfloor>q\<rfloor>")
  case True
  then obtain m where "q = of_int m" ..
  then have "- q = of_int (- m)" by simp
  then show ?thesis using \<open>q = of_int m\<close> by (simp only: roundHalfEven_of_int)
next
  case False
  then have f: "\<lfloor>- q\<rfloor> = - \<lfloor>q\<rfloor> - 1"
    by (simp add: floor_minus ceiling_altdef)
  show ?thesis
    unfolding roundHalfEven_def Let_def f by (auto simp: algebra_simps)
qed

lemma powr_powi: "2 powr real_of_int k = (2::real) powi k"
  by (rule powr_real_of_int') simp_all

lemma log2_floor:
  assumes "0 < x"
  shows "(\<lfloor>log 2 x\<rfloor> = e) = (2 powi e \<le> x \<and> x < 2 powi (e + 1))"
proof -
  have b: "(1::real) < 2" by simp
  show ?thesis
    using floor_log_eq_powr_iff [OF assms b, of e] unfolding powr_powi .
qed

lemma log2_bounds:
  assumes "0 < x"
  shows "2 powi \<lfloor>log 2 x\<rfloor> \<le> x \<and> x < 2 powi (\<lfloor>log 2 x\<rfloor> + 1)"
  using log2_floor [OF assms, of "\<lfloor>log 2 x\<rfloor>"] by blast

lemma log2_floor_eq:
  assumes "2 powi e \<le> x" and "x < 2 powi (e + 1)"
  shows "\<lfloor>log 2 x\<rfloor> = e"
proof -
  have "(0::real) < 2 powi e" by simp
  with assms have x: "0 < x" by linarith
  show ?thesis
    using log2_floor [OF x, of e] assms by blast
qed

lemma exponent_bounds:
  assumes "0 < x"
  shows "2 powi exponent x \<le> x \<and> x < 2 powi (exponent x + 1)"
proof (cases "1 \<le> x")
  case True
  let ?n = "\<lfloor>x\<rfloor>"
  from True have n: "0 < ?n" by simp
  let ?b = "bitlen ?n"
  from bitlen_bounds [OF n] have b: "2 ^ nat (?b - 1) \<le> ?n" "?n < 2 ^ nat ?b" by simp_all
  from n have bp: "0 < ?b"
    using bitlen_eq_zero_iff [of ?n] bitlen_nonneg [of ?n] by linarith
  have e: "exponent x = ?b - 1" using True assms by (simp add: exponent_def)
  have "(2::real) powi (?b - 1) = 2 ^ nat (?b - 1)"
    using bp by (simp add: power_int_def)
  also have "\<dots> = of_int (2 ^ nat (?b - 1))" by simp
  also have "\<dots> \<le> of_int ?n" using b(1) by (simp only: of_int_le_iff)
  also have "\<dots> \<le> x" by simp
  finally have l: "2 powi (?b - 1) \<le> x" .
  from b(2) have "?n + 1 \<le> 2 ^ nat ?b" by simp
  then have "of_int (?n + 1) \<le> (of_int (2 ^ nat ?b) :: real)" by (simp only: of_int_le_iff)
  then have a: "real_of_int ?n + 1 \<le> 2 ^ nat ?b" by simp
  have c: "x < real_of_int ?n + 1" by linarith
  from a c have "x < (2::real) ^ nat ?b" by linarith
  moreover have "(2::real) powi ?b = 2 ^ nat ?b" using bp by (simp add: power_int_def)
  ultimately have "x < 2 powi ?b" by (simp only:)
  with l show ?thesis by (simp add: e)
next
  case False
  with assms have x: "0 < x" "x < 1" by simp_all
  let ?y = "1 / x"
  from x have y: "1 < ?y" by simp
  let ?m = "\<lceil>?y\<rceil> - 1"
  from y have m: "0 < ?m" by linarith
  let ?b = "bitlen ?m"
  from bitlen_bounds [OF m] have b: "2 ^ nat (?b - 1) \<le> ?m" "?m < 2 ^ nat ?b" by simp_all
  from m have bp: "0 < ?b"
    using bitlen_eq_zero_iff [of ?m] bitlen_nonneg [of ?m] by linarith
  have e: "exponent x = - ?b" using x by (simp add: exponent_def)
  from b(2) have "\<lceil>?y\<rceil> \<le> 2 ^ nat ?b" by simp
  then have "of_int \<lceil>?y\<rceil> \<le> (of_int (2 ^ nat ?b) :: real)" by (simp only: of_int_le_iff)
  then have a': "real_of_int \<lceil>?y\<rceil> \<le> 2 ^ nat ?b" by simp
  have c': "?y \<le> real_of_int \<lceil>?y\<rceil>" by (rule le_of_int_ceiling)
  from a' c' have u: "?y \<le> 2 ^ nat ?b" by linarith
  have "(of_int (2 ^ nat (?b - 1)) :: real) \<le> of_int ?m" using b(1) by (simp only: of_int_le_iff)
  then have a: "(2::real) ^ nat (?b - 1) \<le> of_int ?m" by simp
  have c: "real_of_int ?m < ?y" by linarith
  from a c have l: "2 ^ nat (?b - 1) < ?y" by linarith
  have p1: "(2::real) powi (- ?b) = 1 / 2 ^ nat ?b"
    using bp by (simp add: power_int_def field_simps)
  have p2: "(2::real) powi (- ?b + 1) = 1 / 2 ^ nat (?b - 1)"
    using bp by (auto simp: power_int_def field_simps nat_diff_distrib)
  from u x have "1 / 2 ^ nat ?b \<le> x"
    by (simp add: field_simps)
  then have "2 powi (- ?b) \<le> x"
    unfolding p1 .
  moreover from l x have "x < 1 / 2 ^ nat (?b - 1)"
    by (simp add: field_simps)
  then have "x < 2 powi (- ?b + 1)"
    unfolding p2 .
  ultimately show ?thesis
    unfolding e by blast
qed

lemma exponent_log: "x \<noteq> 0 \<Longrightarrow> exponent x = \<lfloor>log 2 \<bar>x\<bar>\<rfloor>"
proof -
  assume "x \<noteq> 0"
  then have a: "0 < \<bar>x\<bar>" by simp
  have e: "exponent \<bar>x\<bar> = exponent x" by (simp add: exponent_def)
  from exponent_bounds [OF a] have "2 powi exponent x \<le> \<bar>x\<bar>" "\<bar>x\<bar> < 2 powi (exponent x + 1)"
    unfolding e by blast+
  then show ?thesis by (rule log2_floor_eq [symmetric])
qed

lemma ulp_log: "x \<noteq> 0 \<Longrightarrow> ulp x = 2 powi (\<lfloor>log 2 \<bar>x\<bar>\<rfloor> - 52)"
  by (simp add: ulp_def exponent_log)

lemma ulp_pos: "0 < ulp x"
  by (simp add: ulp_def)

lemma ulp_scale: "x \<noteq> 0 \<Longrightarrow> 2 ^ 52 * ulp x = 2 powi \<lfloor>log 2 \<bar>x\<bar>\<rfloor>"
proof -
  assume x: "x \<noteq> 0"
  have "(2::real) powi (52 + (\<lfloor>log 2 \<bar>x\<bar>\<rfloor> - 52)) = 2 powi 52 * 2 powi (\<lfloor>log 2 \<bar>x\<bar>\<rfloor> - 52)"
    by (rule power_int_add) simp
  then show ?thesis by (simp add: ulp_log [OF x])
qed

text \<open>A positive number and its double lie in the same binade, ends included.\<close>

lemma roundDouble_binade:
  assumes "0 < x"
  shows "2 powi \<lfloor>log 2 x\<rfloor> \<le> roundDouble x \<and> roundDouble x \<le> 2 powi (\<lfloor>log 2 x\<rfloor> + 1)"
proof -
  let ?e = "\<lfloor>log 2 x\<rfloor>"
  let ?u = "ulp x"
  from assms have ax: "\<bar>x\<bar> = x" by simp
  have u: "0 < ?u" by (rule ulp_pos)
  from assms have nz: "x \<noteq> 0" by simp
  have s: "2 ^ 52 * ?u = 2 powi ?e" using ulp_scale [OF nz] by (simp add: ax)
  have s2: "2 ^ 53 * ?u = 2 powi (?e + 1)"
  proof -
    have "(2::real) powi (?e + 1) = 2 powi ?e * 2" by (rule power_int_add_1) simp
    then show ?thesis using s by simp
  qed
  from log2_bounds [OF assms] have "2 powi ?e \<le> x" "x < 2 powi (?e + 1)"
    by blast+
  then have "2 ^ 52 * ?u \<le> x" "x \<le> 2 ^ 53 * ?u"
    unfolding s s2 by linarith+
  then have "of_int (2 ^ 52) \<le> x / ?u" "x / ?u \<le> of_int (2 ^ 53)"
    using u by (simp_all add: pos_le_divide_eq pos_divide_le_eq)
  then have "roundHalfEven (of_int (2 ^ 52)) \<le> roundHalfEven (x / ?u)"
    "roundHalfEven (x / ?u) \<le> roundHalfEven (of_int (2 ^ 53))"
    by (simp_all only: roundHalfEven_mono)
  then have "2 ^ 52 \<le> roundHalfEven (x / ?u)" "roundHalfEven (x / ?u) \<le> 2 ^ 53"
    by (simp_all only: roundHalfEven_of_int)
  then have "(2 ^ 52 :: real) \<le> of_int (roundHalfEven (x / ?u))"
    "of_int (roundHalfEven (x / ?u)) \<le> (2 ^ 53 :: real)"
    by simp_all
  then have "2 ^ 52 * ?u \<le> of_int (roundHalfEven (x / ?u)) * ?u"
    "of_int (roundHalfEven (x / ?u)) * ?u \<le> 2 ^ 53 * ?u"
    using u by (simp_all only: mult_le_cancel_right_pos)
  then have "2 powi ?e \<le> of_int (roundHalfEven (x / ?u)) * ?u"
    "of_int (roundHalfEven (x / ?u)) * ?u \<le> 2 powi (?e + 1)"
    unfolding s s2 .
  moreover have "roundDouble x = of_int (roundHalfEven (x / ?u)) * ?u"
    using assms by (simp add: roundDouble_def)
  ultimately show ?thesis by simp
qed

lemma roundDouble_mono_pos:
  assumes "0 < x" and "x \<le> y"
  shows "roundDouble x \<le> roundDouble y"
proof -
  from assms have y: "0 < y" by simp
  have le: "\<lfloor>log 2 x\<rfloor> \<le> \<lfloor>log 2 y\<rfloor>"
    using assms by (intro floor_mono) simp
  show ?thesis
  proof (cases "\<lfloor>log 2 x\<rfloor> = \<lfloor>log 2 y\<rfloor>")
    case True
    with assms y have u: "ulp x = ulp y" by (simp add: ulp_log)
    have "x / ulp y \<le> y / ulp y"
      using assms(2) ulp_pos [of y] by (simp add: divide_right_mono)
    then have "roundHalfEven (x / ulp y) \<le> roundHalfEven (y / ulp y)"
      by (rule roundHalfEven_mono)
    then have "real_of_int (roundHalfEven (x / ulp y)) * ulp y
        \<le> real_of_int (roundHalfEven (y / ulp y)) * ulp y"
      using ulp_pos [of y] by (simp only: mult_le_cancel_right_pos of_int_le_iff)
    then show ?thesis using assms y by (simp add: roundDouble_def u)
  next
    case False
    with le have "\<lfloor>log 2 x\<rfloor> + 1 \<le> \<lfloor>log 2 y\<rfloor>" by simp
    then have "(2::real) powi (\<lfloor>log 2 x\<rfloor> + 1) \<le> 2 powi \<lfloor>log 2 y\<rfloor>"
      by (rule power_int_increasing) simp
    with roundDouble_binade [OF assms(1)] roundDouble_binade [OF y] show ?thesis
      by linarith
  qed
qed

lemma roundDouble_minus: "roundDouble (- x) = - roundDouble x"
proof -
  have "ulp (- x) = ulp x" by (simp add: ulp_def exponent_def)
  then show ?thesis
    using roundHalfEven_minus [of "x / ulp x"] by (simp add: roundDouble_def)
qed

lemma roundDouble_pos: "0 < x \<Longrightarrow> 0 < roundDouble x"
proof -
  assume x: "0 < x"
  have "(0::real) < 2 powi \<lfloor>log 2 x\<rfloor>" by simp
  with roundDouble_binade [OF x] show ?thesis by linarith
qed

lemma roundDouble_mono:
  assumes "x \<le> y" shows "roundDouble x \<le> roundDouble y"
proof -
  consider "0 < x" | "x = 0" | "x < 0" "y < 0" | "x < 0" "0 \<le> y" by linarith
  then show ?thesis
  proof cases
    case 1
    then show ?thesis using assms by (rule roundDouble_mono_pos)
  next
    case 2
    show ?thesis
    proof (cases "y = 0")
      case True with 2 show ?thesis by simp
    next
      case False
      with 2 assms have "0 < y" by simp
      from roundDouble_pos [OF this] 2 show ?thesis by (simp add: roundDouble_def)
    qed
  next
    case 3
    then have "0 < - y" "- y \<le> - x" using assms by simp_all
    then have "roundDouble (- y) \<le> roundDouble (- x)" by (rule roundDouble_mono_pos)
    then show ?thesis by (simp add: roundDouble_minus)
  next
    case 4
    then have "0 < - x" by simp
    from roundDouble_pos [OF this] have a: "roundDouble x < 0" by (simp add: roundDouble_minus)
    have "0 \<le> roundDouble y"
    proof (cases "y = 0")
      case True then show ?thesis by (simp add: roundDouble_def)
    next
      case False
      with 4 have "0 < y" by simp
      from roundDouble_pos [OF this] show ?thesis by simp
    qed
    with a show ?thesis by linarith
  qed
qed

text \<open>The double of a number whose binade is known.\<close>

lemma roundDouble_eval:
  assumes "2 powi e \<le> \<bar>x\<bar>" and "\<bar>x\<bar> < 2 powi (e + 1)"
  shows "roundDouble x = of_int (roundHalfEven (x / 2 powi (e - 52))) * 2 powi (e - 52)"
proof -
  have "(0::real) < 2 powi e" by simp
  with assms have "0 < \<bar>x\<bar>" by linarith
  then have "x \<noteq> 0" by simp
  moreover from this have "ulp x = 2 powi (e - 52)"
    using log2_floor_eq [OF assms] by (simp add: ulp_log)
  ultimately show ?thesis by (simp add: roundDouble_def)
qed

lemma roundDouble_examples:
  "roundDouble 4 = 4" "roundDouble 10 = 10" "roundDouble 14 = 14" "roundDouble 98 = 98"
  "roundDouble 100 = 100" "roundDouble 102 = 102"
  "roundDouble (100 - 1 / 2 ^ 46) = 100 - 1 / 2 ^ 46"
  "roundDouble (3 / 2 ^ 48) = 3 / 2 ^ 48"
  "roundDouble (100 - 1 / 2 ^ 46 + 3 / 2 ^ 48) = 100"
  using roundDouble_eval [of 2 4] roundDouble_eval [of 3 10] roundDouble_eval [of 3 14]
    roundDouble_eval [of 6 98] roundDouble_eval [of 6 100] roundDouble_eval [of 6 102]
    roundDouble_eval [of 6 "100 - 1 / 2 ^ 46"] roundDouble_eval [of "- 47" "3 / 2 ^ 48"]
    roundDouble_eval [of 6 "100 - 1 / 2 ^ 46 + 3 / 2 ^ 48"]
  by (simp_all add: roundHalfEven_def)

subsection \<open>The tick\<close>

lemma tickDownload_progress:
  assumes m: "\<forall>x y. x \<le> y \<longrightarrow> fl x \<le> fl y" and z: "fl 0 = 0"
    and r: "0 \<le> r" and d: "fl (progress dl) = progress dl" and p: "progress dl \<le> 100"
  shows "progress dl \<le> progress (tickDownload fl r dl) \<and> progress (tickDownload fl r dl) \<le> 100"
proof -
  from r have "(0::real) \<le> r * 8" by simp
  with m have "fl 0 \<le> fl (r * 8)" by blast
  with z have "progress dl \<le> progress dl + fl (r * 8)" by simp
  with m have "fl (progress dl) \<le> fl (progress dl + fl (r * 8))" by blast
  with d have "progress dl \<le> fl (progress dl + fl (r * 8))" by simp
  with p show ?thesis by (simp add: tickDownload_def Let_def)
qed

lemma tickDownload_idle: "status dl \<noteq> Downloading \<Longrightarrow> tickDownload fl r dl = dl"
  by (simp add: tickDownload_def)

lemma tickDownloads_length: "length (tickDownloads fl rnd k dls) = length dls"
  by (induction dls arbitrary: k) simp_all

lemma tickDownloads_nth:
  "i < length dls \<Longrightarrow> \<exists>j. tickDownloads fl rnd k dls ! i = tickDownload fl (rnd j) (dls ! i)"
proof (induction dls arbitrary: k i)
  case Nil
  then show ?case by simp
next
  case (Cons dl dls)
  show ?case
  proof (cases i)
    case 0
    then show ?thesis by (auto simp: tickDownload_idle)
  next
    case (Suc n)
    with Cons.prems have "n < length dls" by simp
    from Cons.IH [OF this] Suc show ?thesis by simp
  qed
qed

text \<open>
  Claim C7. The sum and the product of a tick are rounded by \<open>fl\<close>, a monotone function
  that keeps 0 (as rounding to the nearest double is). A tick with any draws \<open>rnd k \<ge> 0\<close>
  (\<open>Math.random()\<close> is in \<open>[0, 1)\<close>), over entries whose progress is a number that \<open>fl\<close>
  keeps (a double) and at most 100: no entry's progress decreases, none exceeds 100, an
  entry that is not downloading is unchanged, and a downloading entry whose incremented
  progress, as computed, reaches 100 is set to exactly 100 and to completed in that tick,
  the others to the incremented progress.
\<close>

theorem download_tick_monotone:
  assumes "\<forall>x y. x \<le> y \<longrightarrow> fl x \<le> fl y" and "fl 0 = 0"
    and "\<forall>k. 0 \<le> rnd k"
    and "\<forall>dl \<in> set (downloads s). fl (progress dl) = progress dl \<and> progress dl \<le> 100"
  shows "length (downloads (downloadTick fl rnd s)) = length (downloads s) \<and>
    (\<forall>i<length (downloads s).
       progress (downloads s ! i) \<le> progress (downloads (downloadTick fl rnd s) ! i) \<and>
       progress (downloads (downloadTick fl rnd s) ! i) \<le> 100 \<and>
       (status (downloads s ! i) \<noteq> Downloading \<longrightarrow>
          downloads (downloadTick fl rnd s) ! i = downloads s ! i) \<and>
       (status (downloads s ! i) = Downloading \<longrightarrow>
          (\<exists>j. downloads (downloadTick fl rnd s) ! i =
             (if fl (progress (downloads s ! i) + fl (rnd j * 8)) \<ge> 100
              then (downloads s ! i)\<lparr>progress := 100, status := Completed\<rparr>
              else (downloads s ! i)\<lparr>progress :=
                     fl (progress (downloads s ! i) + fl (rnd j * 8))\<rparr>))))"
proof -
  let ?dls = "downloads s"
  let ?new = "tickDownloads fl rnd 0 ?dls"
  have d: "downloads (downloadTick fl rnd s) = ?new"
    by (simp add: downloadTick_def)
  have "\<forall>i<length ?dls.
       progress (?dls ! i) \<le> progress (?new ! i) \<and>
       progress (?new ! i) \<le> 100 \<and>
       (status (?dls ! i) \<noteq> Downloading \<longrightarrow> ?new ! i = ?dls ! i) \<and>
       (status (?dls ! i) = Downloading \<longrightarrow>
          (\<exists>j. ?new ! i =
             (if fl (progress (?dls ! i) + fl (rnd j * 8)) \<ge> 100
              then (?dls ! i)\<lparr>progress := 100, status := Completed\<rparr>
              else (?dls ! i)\<lparr>progress := fl (progress (?dls ! i) + fl (rnd j * 8))\<rparr>)))"
  proof (intro allI impI)
    fix i assume i: "i < length ?dls"
    then have "?dls ! i \<in> set ?dls" by simp
    with assms(4) have f: "fl (progress (?dls ! i)) = progress (?dls ! i)"
      and p: "progress (?dls ! i) \<le> 100"
      by blast+
    from tickDownloads_nth [OF i, of fl rnd 0] obtain j
      where j: "?new ! i = tickDownload fl (rnd j) (?dls ! i)" ..
    from assms(3) have r: "0 \<le> rnd j" by simp
    show "progress (?dls ! i) \<le> progress (?new ! i) \<and>
       progress (?new ! i) \<le> 100 \<and>
       (status (?dls ! i) \<noteq> Downloading \<longrightarrow> ?new ! i = ?dls ! i) \<and>
       (status (?dls ! i) = Downloading \<longrightarrow>
          (\<exists>j. ?new ! i =
             (if fl (progress (?dls ! i) + fl (rnd j * 8)) \<ge> 100
              then (?dls ! i)\<lparr>progress := 100, status := Completed\<rparr>
              else (?dls ! i)\<lparr>progress := fl (progress (?dls ! i) + fl (rnd j * 8))\<rparr>)))"
    proof (intro conjI impI)
      show "progress (?dls ! i) \<le> progress (?new ! i)"
        and "progress (?new ! i) \<le> 100"
        using tickDownload_progress [OF assms(1) assms(2) r f p] j by simp_all
      show "?new ! i = ?dls ! i" if "status (?dls ! i) \<noteq> Downloading"
        using that j by (simp add: tickDownload_idle)
      show "\<exists>j. ?new ! i =
             (if fl (progress (?dls ! i) + fl (rnd j * 8)) \<ge> 100
              then (?dls ! i)\<lparr>progress := 100, status := Completed\<rparr>
              else (?dls ! i)\<lparr>progress := fl (progress (?dls ! i) + fl (rnd j * 8))\<rparr>)"
        if "status (?dls ! i) = Downloading"
        using that j by (auto simp: tickDownload_def Let_def)
    qed
  qed
  then show ?thesis
    unfolding d by (simp add: tickDownloads_length)
qed

text \<open>With the rounding of doubles: progress 98, 100 (completed), 10 and \<open>100 - 2^-46\<close>,
  the draws one half, one half and \<open>3 * 2^-51\<close>. The first entry reaches 102 and is set to
  100 and completed, the second is unchanged, the third moves to 14. For the fourth the
  exact sum \<open>100 - 2^-48\<close> is below 100, its double is 100: the entry is completed.\<close>

theorem download_tick_monotone_witness:
  "roundDouble 0 = 0 \<and> 0 \<le> sampleDraws 0 \<and> 0 \<le> sampleDraws 1 \<and> 0 \<le> sampleDraws 2 \<and>
   roundDouble 98 = 98 \<and> roundDouble 100 = 100 \<and> roundDouble 10 = 10 \<and>
   roundDouble (100 - 1 / 2 ^ 46) = 100 - 1 / 2 ^ 46 \<and>
   map progress (downloads downloadingState) = [98, 100, 10, 100 - 1 / 2 ^ 46] \<and>
   map status (downloads downloadingState) =
     [Downloading, Completed, Downloading, Downloading] \<and>
   progress (downloads downloadingState ! 3) + sampleDraws 2 * 8 < 100 \<and>
   map progress (downloads (downloadTick roundDouble sampleDraws downloadingState)) =
     [100, 100, 14, 100] \<and>
   map status (downloads (downloadTick roundDouble sampleDraws downloadingState)) =
     [Completed, Completed, Downloading, Completed] \<and>
   progress (downloads downloadingState ! 0) \<le>
     progress (downloads (downloadTick roundDouble sampleDraws downloadingState) ! 0) \<and>
   downloads (downloadTick roundDouble sampleDraws downloadingState) ! 1 =
     downloads downloadingState ! 1 \<and>
   progress (downloads downloadingState ! 2) \<le>
     progress (downloads (downloadTick roundDouble sampleDraws downloadingState) ! 2) \<and>
   progress (downloads downloadingState ! 3) \<le>
     progress (downloads (downloadTick roundDouble sampleDraws downloadingState) ! 3)"
proof -
  have m: "\<forall>x y. x \<le> y \<longrightarrow> roundDouble x \<le> roundDouble y"
    using roundDouble_mono by blast
  have z: "roundDouble 0 = 0"
    by (simp add: roundDouble_def)
  have r: "\<forall>k. 0 \<le> sampleDraws k"
    by (simp add: sampleDraws_def)
  have d: "downloads downloadingState = sampleDownloads"
    by (simp add: downloadingState_def)
  have p: "\<forall>dl \<in> set (downloads downloadingState).
      roundDouble (progress dl) = progress dl \<and> progress dl \<le> 100"
    unfolding d sampleDownloads_def list.set ball_simps DownloadItem.select_convs
      roundDouble_examples
    by simp
  have l: "length (downloads downloadingState) = 4"
    unfolding d by (simp add: sampleDownloads_def)
  have s1: "status (downloads downloadingState ! 1) \<noteq> Downloading"
    unfolding d by (simp add: sampleDownloads_def)
  from download_tick_monotone [OF m z r p] l s1
  have "progress (downloads downloadingState ! 0) \<le>
     progress (downloads (downloadTick roundDouble sampleDraws downloadingState) ! 0)"
    and "downloads (downloadTick roundDouble sampleDraws downloadingState) ! 1 =
     downloads downloadingState ! 1"
    and "progress (downloads downloadingState ! 2) \<le>
     progress (downloads (downloadTick roundDouble sampleDraws downloadingState) ! 2)"
    and "progress (downloads downloadingState ! 3) \<le>
     progress (downloads (downloadTick roundDouble sampleDraws downloadingState) ! 3)"
    by simp_all
  moreover have "downloads (downloadTick roundDouble sampleDraws downloadingState) =
    [(sampleDownloads ! 0)\<lparr>progress := 100, status := Completed\<rparr>, sampleDownloads ! 1,
     (sampleDownloads ! 2)\<lparr>progress := 14\<rparr>,
     (sampleDownloads ! 3)\<lparr>progress := 100, status := Completed\<rparr>]"
  proof -
    have h: "(1 / 2 :: real) * 8 = 4" "(98 :: real) + 4 = 102" "(10 :: real) + 4 = 14"
      "(3 / 2 ^ 51 :: real) * 8 = 3 / 2 ^ 48"
      by simp_all
    have t: "tickDownload roundDouble (1 / 2) (sampleDownloads ! 0) =
        (sampleDownloads ! 0)\<lparr>progress := 100, status := Completed\<rparr>"
      "tickDownload roundDouble (1 / 2) (sampleDownloads ! 2) = (sampleDownloads ! 2)\<lparr>progress := 14\<rparr>"
      "tickDownload roundDouble (3 / 2 ^ 51) (sampleDownloads ! 3) =
        (sampleDownloads ! 3)\<lparr>progress := 100, status := Completed\<rparr>"
      unfolding tickDownload_def Let_def sampleDownloads_def nth_Cons_0 nth_Cons_numeral
        nth_Cons_Suc numeral_2_eq_2 numeral_3_eq_3 DownloadItem.simps h roundDouble_examples
      by simp_all
    have "downloads (downloadTick roundDouble sampleDraws downloadingState) =
      [tickDownload roundDouble (1 / 2) (sampleDownloads ! 0), sampleDownloads ! 1,
       tickDownload roundDouble (1 / 2) (sampleDownloads ! 2),
       tickDownload roundDouble (3 / 2 ^ 51) (sampleDownloads ! 3)]"
      unfolding downloadTick_def d by (simp add: sampleDownloads_def sampleDraws_def)
    then show ?thesis by (simp only: t)
  qed
  moreover have "progress (downloads downloadingState ! 3) + sampleDraws 2 * 8 < 100"
    by (simp add: d sampleDownloads_def sampleDraws_def)
  ultimately show ?thesis
    using z r roundDouble_examples(2,4,5,7) by (simp add: d sampleDownloads_def)
qed

section \<open>Bookmark toggle and import\<close>

lemma toggleBookmark_url: "url (toggleBookmark h s) = url s"
  by (simp add: toggleBookmark_def Let_def split: option.splits)

lemma toggleBookmark_absent:
  assumes "find (\<lambda>b. bm_url b = url s) (bookmarks s) = None"
  shows "\<exists>b. bookmarks (toggleBookmark h s) = bookmarks s @ [b] \<and> bm_url b = url s \<and>
           bm_id b = toString (now h 0) \<and> createdAt b = now h 1"
  using assms by (simp add: toggleBookmark_def Let_def)

lemma toggleBookmark_present:
  assumes "find (\<lambda>b. bm_url b = url s) (bookmarks s) = Some e"
  shows "bookmarks (toggleBookmark h s) = filter (\<lambda>b. bm_url b \<noteq> url s) (bookmarks s)"
  using assms by (simp add: toggleBookmark_def)

lemma find_filter_out: "find P (filter (\<lambda>b. \<not> P b) xs) = None"
  by (simp add: find_None_iff)

lemma filter_absent: "find P xs = None \<Longrightarrow> filter (\<lambda>b. \<not> P b) xs = xs"
  by (simp add: find_None_iff filter_id_conv)

lemma toggle_twice_absent:
  assumes "find (\<lambda>b. bm_url b = url s) (bookmarks s) = None"
  shows "bookmarks (toggleBookmark h2 (toggleBookmark h1 s)) = bookmarks s"
proof -
  from toggleBookmark_absent [OF assms, of h1] obtain b
    where b: "bookmarks (toggleBookmark h1 s) = bookmarks s @ [b]" "bm_url b = url s"
    by blast
  then have "find (\<lambda>b. bm_url b = url (toggleBookmark h1 s)) (bookmarks (toggleBookmark h1 s)) \<noteq> None"
    by (auto simp: toggleBookmark_url find_None_iff)
  then obtain e where
    "find (\<lambda>b. bm_url b = url (toggleBookmark h1 s)) (bookmarks (toggleBookmark h1 s)) = Some e"
    by blast
  from toggleBookmark_present [OF this, of h2] b filter_absent [OF assms]
  show ?thesis
    by (simp add: toggleBookmark_url)
qed

lemma toggle_twice_present:
  assumes "find (\<lambda>b. bm_url b = url s) (bookmarks s) = Some e"
  shows "\<exists>b. bookmarks (toggleBookmark h2 (toggleBookmark h1 s)) =
           filter (\<lambda>b. bm_url b \<noteq> url s) (bookmarks s) @ [b] \<and>
           bm_url b = url s \<and> bm_id b = toString (now h2 0) \<and> createdAt b = now h2 1"
proof -
  have 1: "bookmarks (toggleBookmark h1 s) = filter (\<lambda>b. bm_url b \<noteq> url s) (bookmarks s)"
    by (rule toggleBookmark_present [OF assms])
  have "find (\<lambda>b. bm_url b = url (toggleBookmark h1 s)) (bookmarks (toggleBookmark h1 s)) = None"
    unfolding 1 toggleBookmark_url by (rule find_filter_out)
  from toggleBookmark_absent [OF this, of h2] show ?thesis
    by (simp add: 1 toggleBookmark_url)
qed

text \<open>
  Claim C8, amended. Toggling twice on the same page restores the bookmark sequence when
  the page was not bookmarked. When it was, the result is the bookmarks of the other URLs
  followed by one new bookmark of the page, with the clock's readings as its id and its
  date. In both cases the bookmarked URLs are the same set as before, and the bookmarks of
  other URLs are the same, with their ids, in the same order.
\<close>

theorem toggleBookmark_twice:
  "(find (\<lambda>b. bm_url b = url s) (bookmarks s) = None \<longrightarrow>
      bookmarks (toggleBookmark h2 (toggleBookmark h1 s)) = bookmarks s) \<and>
   (find (\<lambda>b. bm_url b = url s) (bookmarks s) \<noteq> None \<longrightarrow>
      (\<exists>b. bookmarks (toggleBookmark h2 (toggleBookmark h1 s)) =
             filter (\<lambda>b. bm_url b \<noteq> url s) (bookmarks s) @ [b] \<and>
           bm_url b = url s \<and> bm_id b = toString (now h2 0) \<and> createdAt b = now h2 1)) \<and>
   bm_url ` set (bookmarks (toggleBookmark h2 (toggleBookmark h1 s))) = bm_url ` set (bookmarks s) \<and>
   filter (\<lambda>b. bm_url b \<noteq> url s) (bookmarks (toggleBookmark h2 (toggleBookmark h1 s))) =
     filter (\<lambda>b. bm_url b \<noteq> url s) (bookmarks s) \<and>
   url (toggleBookmark h2 (toggleBookmark h1 s)) = url s"
proof (cases "find (\<lambda>b. bm_url b = url s) (bookmarks s)")
  case None
  from toggle_twice_absent [OF None, of h2 h1] None show ?thesis
    by (simp add: toggleBookmark_url)
next
  case (Some e)
  then have "find (\<lambda>b. bm_url b = url s) (bookmarks s) \<noteq> None"
    by simp
  then obtain x where "x \<in> set (bookmarks s)" "bm_url x = url s"
    unfolding find_None_iff by blast
  then have m: "url s \<in> bm_url ` set (bookmarks s)"
    by force
  from toggle_twice_present [OF Some, of h2 h1] obtain b
    where b: "bookmarks (toggleBookmark h2 (toggleBookmark h1 s)) =
           filter (\<lambda>b. bm_url b \<noteq> url s) (bookmarks s) @ [b]" "bm_url b = url s"
      "bm_id b = toString (now h2 0)" "createdAt b = now h2 1"
    by blast
  have "bm_url ` set (filter (\<lambda>b. bm_url b \<noteq> url s) (bookmarks s) @ [b]) = bm_url ` set (bookmarks s)"
    using m b(2) by auto
  with b Some show ?thesis
    by (simp add: toggleBookmark_url)
qed

text \<open>The new-tab page is not bookmarked at the first render: two toggles give the three
  bookmarks back.\<close>

theorem toggleBookmark_twice_witness:
  "find (\<lambda>b. bm_url b = url (initialState 0)) (bookmarks (initialState 0)) = None \<and>
   bookmarks (toggleBookmark exampleHost (toggleBookmark exampleHost (initialState 0))) =
     bookmarks (initialState 0)"
proof -
  have "find (\<lambda>b. bm_url b = url (initialState 0)) (bookmarks (initialState 0)) = None"
    by (simp add: initialState_def newtabUrl_def lit_def)
  with toggleBookmark_twice [of "initialState 0" exampleHost exampleHost] show ?thesis
    by simp
qed

text \<open>Claim C8 as first stated fails for a bookmarked page. On
  \<open>https://www.wikipedia.org\<close> the ids are 1, 2, 3 before and 2, 3, 1700000000000
  after two toggles: the bookmark comes back at the end, with the clock's reading as its
  id.\<close>

theorem toggleBookmark_twice_counterexample:
  "map bm_id (bookmarks wikipediaState) = [lit ''1'', lit ''2'', lit ''3''] \<and>
   map bm_id (bookmarks (toggleBookmark exampleHost (toggleBookmark exampleHost wikipediaState))) =
     [lit ''2'', lit ''3'', lit ''1700000000000''] \<and>
   bookmarks (toggleBookmark exampleHost (toggleBookmark exampleHost wikipediaState)) \<noteq>
     bookmarks wikipediaState"
proof -
  have 1: "map bm_id (bookmarks wikipediaState) = [lit ''1'', lit ''2'', lit ''3'']"
    by (simp add: wikipediaState_def initialState_def)
  have 2: "map bm_id (bookmarks (toggleBookmark exampleHost (toggleBookmark exampleHost wikipediaState))) =
     [lit ''2'', lit ''3'', lit ''1700000000000'']"
    by (simp add: wikipediaState_def initialState_def toggleBookmark_def Let_def exampleHost_def exampleHostname_def
        lit_def toString.simps)
  have "lit ''1'' \<noteq> lit ''2''"
    by (simp add: lit_def)
  with 1 2 show ?thesis
    by (metis list.inject)
qed

text \<open>
  Claim C9, as far as the code goes. A document that parses to anything but an array
  leaves the whole state as it was, the console included: nothing is merged and nothing is
  logged. A document that does not parse changes only the console, which gets the line
  \<open>Invalid bookmark file\<close>.
\<close>

theorem import_non_array:
  "(JSON_parse text = Inr v \<and> \<not> isArray v \<longrightarrow>
      importBookmarks JSON_parse asBookmark (Some text) s = s) \<and>
   (JSON_parse text = Inl e \<longrightarrow>
      importBookmarks JSON_parse asBookmark (Some text) s =
        s\<lparr>console := console s @ [lit ''Invalid bookmark file'']\<rparr>)"
  by (auto simp: importBookmarks_def isArray_def split: json.splits)

text \<open>The document \<open>{}\<close> leaves the bookmarks and the console as they were; the
  document \<open>{\<close> is logged.\<close>

theorem import_non_array_witness:
  "emptyObjectParse (lit ''{}'') = Inr (JObject []) \<and> \<not> isArray (JObject []) \<and>
   importBookmarks emptyObjectParse bookmarkOfJson (Some (lit ''{}'')) (initialState 0) = initialState 0 \<and>
   bookmarks (importBookmarks emptyObjectParse bookmarkOfJson (Some (lit ''{}'')) (initialState 0)) =
     bookmarks (initialState 0) \<and>
   console (importBookmarks emptyObjectParse bookmarkOfJson (Some (lit ''{}'')) (initialState 0)) = [] \<and>
   emptyObjectParse (lit ''{'') = Inl SyntaxError \<and>
   console (importBookmarks emptyObjectParse bookmarkOfJson (Some (lit ''{'')) (initialState 0)) =
     [lit ''Invalid bookmark file'']"
proof -
  have p: "emptyObjectParse (lit ''{}'') = Inr (JObject [])" "\<not> isArray (JObject [])"
    "emptyObjectParse (lit ''{'') = Inl SyntaxError"
    by (simp_all add: emptyObjectParse_def isArray_def lit_def)
  from import_non_array [of emptyObjectParse "lit ''{}''" "JObject []" bookmarkOfJson "initialState 0"]
    import_non_array [of emptyObjectParse "lit ''{''" _ bookmarkOfJson "initialState 0" SyntaxError]
    p
  show ?thesis
    by (simp add: initialState_def)
qed

section \<open>Persistent state: save, then load\<close>

subsection \<open>Decimal digits\<close>









subsection \<open>Strings and numbers are read back\<close>

lemma hexValue_lowerHexDigit: "d < 16 \<Longrightarrow> hexValue (lowerHexDigit d) = Some d"
proof (cases "d < 10")
  case True
  then have "unat (of_nat (48 + d) :: code_unit) = 48 + d"
    by (simp add: unat_of_nat del: of_nat_add)
  with True show ?thesis
    unfolding hexValue_def lowerHexDigit_def word_le_nat_alt by (simp del: of_nat_add)
next
  case False
  assume "d < 16"
  with False have "unat (of_nat (87 + d) :: code_unit) = 87 + d"
    by (simp add: unat_of_nat del: of_nat_add)
  with False \<open>d < 16\<close> show ?thesis
    unfolding hexValue_def lowerHexDigit_def word_le_nat_alt by (simp del: of_nat_add)
qed

lemma hex4_value:
  "((n div 4096 * 16 + n div 256 mod 16) * 16 + n div 16 mod 16) * 16 + n mod 16 = (n::nat)"
proof -
  have a: "n div 4096 = n div 256 div 16" by (simp add: div_mult2_eq [symmetric])
  have b: "n div 256 = n div 16 div 16" by (simp add: div_mult2_eq [symmetric])
  have "n div 4096 * 16 + n div 256 mod 16 = n div 256"
    unfolding a by (rule div_mult_mod_eq)
  moreover have "n div 256 * 16 + n div 16 mod 16 = n div 16"
    unfolding b by (rule div_mult_mod_eq)
  moreover have "n div 16 * 16 + n mod 16 = n"
    by (rule div_mult_mod_eq)
  ultimately show ?thesis by (simp only:)
qed

lemma readHex4_unicodeEscape:
  "readHex4 (lowerHexDigit (unat c div 4096)) (lowerHexDigit (unat c div 256 mod 16))
     (lowerHexDigit (unat c div 16 mod 16)) (lowerHexDigit (unat c mod 16)) = Some c"
proof -
  have "unat c < 65536" using unsigned_less [of c, where ?'a = nat] by simp
  then have a: "unat c div 4096 < 16" by simp
  have b: "unat c div 256 mod 16 < 16" "unat c div 16 mod 16 < 16" "unat c mod 16 < 16"
    by simp_all
  have w: "(of_nat (unat c) :: code_unit) = c" by simp
  show ?thesis
    unfolding readHex4_def
    by (simp only: hexValue_lowerHexDigit [OF a] hexValue_lowerHexDigit [OF b(1)]
        hexValue_lowerHexDigit [OF b(2)] hexValue_lowerHexDigit [OF b(3)] option.case hex4_value w)
qed

lemma readString_quote: "readString (0x22 # r) = Some ([], r)"
  by simp

lemma readString_plain:
  "c \<noteq> 0x22 \<Longrightarrow> c \<noteq> 0x5C \<Longrightarrow> \<not> c < 0x20 \<Longrightarrow> readString (c # r) = consUnit c (readString r)"
  by simp

lemma readString_simple:
  "e \<noteq> 0x75 \<Longrightarrow>
   readString (0x5C # e # r) =
     (case simpleEscape e of None \<Rightarrow> None | Some u \<Rightarrow> consUnit u (readString r))"
  by simp

lemma readString_unicode:
  "readHex4 h1 h2 h3 h4 = Some u \<Longrightarrow>
   readString (0x5C # 0x75 # h1 # h2 # h3 # h4 # r) = consUnit u (readString r)"
  by simp

declare readString.simps [simp del]

lemma readString_quoteUnit: "readString (quoteUnit c @ r) = consUnit c (readString r)"
proof -
  consider "c = 0x08" | "c = 0x09" | "c = 0x0A" | "c = 0x0C" | "c = 0x0D" | "c = 0x22" | "c = 0x5C"
    | "c \<notin> {0x08, 0x09, 0x0A, 0x0C, 0x0D, 0x22, 0x5C}" "c < 0x20 \<or> isLeadSurrogate c \<or> isTrailSurrogate c"
    | "c \<notin> {0x08, 0x09, 0x0A, 0x0C, 0x0D, 0x22, 0x5C}" "\<not> (c < 0x20 \<or> isLeadSurrogate c \<or> isTrailSurrogate c)"
    by blast
  then show ?thesis
  proof cases
    case 1
    then show ?thesis by (simp add: quoteUnit_def readString_simple simpleEscape_def)
  next
    case 2
    then show ?thesis by (simp add: quoteUnit_def readString_simple simpleEscape_def)
  next
    case 3
    then show ?thesis by (simp add: quoteUnit_def readString_simple simpleEscape_def)
  next
    case 4
    then show ?thesis by (simp add: quoteUnit_def readString_simple simpleEscape_def)
  next
    case 5
    then show ?thesis by (simp add: quoteUnit_def readString_simple simpleEscape_def)
  next
    case 6
    then show ?thesis by (simp add: quoteUnit_def readString_simple simpleEscape_def)
  next
    case 7
    then show ?thesis by (simp add: quoteUnit_def readString_simple simpleEscape_def)
  next
    case 8
    then have "quoteUnit c = unicodeEscape c" by (simp add: quoteUnit_def)
    then show ?thesis
      by (simp add: unicodeEscape_def readString_unicode [OF readHex4_unicodeEscape])
  next
    case 9
    then have "quoteUnit c = [c]" by (simp add: quoteUnit_def)
    with 9 show ?thesis by (simp add: readString_plain)
  qed
qed

lemma readString_pair:
  assumes "isLeadSurrogate c" and "isTrailSurrogate d"
  shows "readString (c # d # r) = consUnit c (consUnit d (readString r))"
proof -
  from assms have "c \<noteq> 0x22" "c \<noteq> 0x5C" "\<not> c < 0x20" "d \<noteq> 0x22" "d \<noteq> 0x5C" "\<not> d < 0x20"
    unfolding isLeadSurrogate_def isTrailSurrogate_def word_le_nat_alt word_less_nat_alt
    by auto
  then show ?thesis by (simp add: readString_plain)
qed

lemma readString_quoteLoop: "readString (quoteLoop s @ 0x22 # rest) = Some (s, rest)"
proof (induction s rule: quoteLoop.induct)
  case 1
  show ?case by (simp add: readString_quote)
next
  case (2 c)
  show ?case by (simp add: readString_quoteUnit readString_quote consUnit_def)
next
  case (3 c d cs)
  show ?case
  proof (cases "isLeadSurrogate c \<and> isTrailSurrogate d")
    case True
    then have q: "quoteLoop (c # d # cs) = c # d # quoteLoop cs" by simp
    from True have "readString (c # d # quoteLoop cs @ 0x22 # rest)
        = consUnit c (consUnit d (readString (quoteLoop cs @ 0x22 # rest)))"
      by (simp only: readString_pair)
    also have "\<dots> = Some (c # d # cs, rest)"
      by (simp only: "3.IH"(1) [OF True]) (simp add: consUnit_def)
    finally show ?thesis by (simp only: q append_Cons)
  next
    case False
    have q: "quoteLoop (c # d # cs) = quoteUnit c @ quoteLoop (d # cs)"
      by (simp add: False)
    have "readString (quoteUnit c @ quoteLoop (d # cs) @ 0x22 # rest)
        = consUnit c (readString (quoteLoop (d # cs) @ 0x22 # rest))"
      by (rule readString_quoteUnit)
    also have "\<dots> = Some (c # d # cs, rest)"
      by (simp only: "3.IH"(2) [OF False]) (simp add: consUnit_def)
    finally show ?thesis by (simp only: q append_assoc)
  qed
qed

lemma readString_quoteJSONString:
  "readString (tl (quoteJSONString s) @ rest) = Some (s, rest)"
  by (simp add: quoteJSONString_def readString_quoteLoop)



subsection \<open>Every storable value is read back from its text\<close>

























subsection \<open>The hook\<close>













end
